theory Spec2Isabelle
  imports Complex_Main "HOL-Library.Word" "HOL-Library.Code_Target_Numeral"
begin

section \<open>Values shared by the whole pipeline\<close>

text \<open>
  A \<^verbatim>\<open>Uint8Array\<close> is a list of 8-bit words. A JavaScript \<^verbatim>\<open>number\<close> that holds a
  coordinate is modelled as a real number, so arithmetic is exact (rounding of IEEE
  doubles, NaN and the infinities are outside the model); a page number is an integer.
  A value thrown by JavaScript is either an \<^verbatim>\<open>Error\<close> with its message or some other
  value; an \<^verbatim>\<open>async\<close> function that may reject returns \<open>thrown + 'a\<close>.

  A \<^verbatim>\<open>File\<close> is its name and the outcome of reading it: \<^verbatim>\<open>arrayBuffer()\<close> resolves to the
  bytes or rejects (a file on disk that cannot be read any more), and reading the same
  file again has the same outcome.
\<close>

type_synonym bytes = "8 word list"

datatype thrown = JsError string | NonError

record File =
  file_name :: string
  file_read :: "thrown + bytes"

definition arrayBuffer :: "File \<Rightarrow> thrown + bytes" where
  "arrayBuffer pdfFile = file_read pdfFile"

text \<open>\<^verbatim>\<open>src/app/types/pdf.ts\<close>: one user-drawn rectangle.\<close>

record RedactionArea =
  pageNumber :: int
  area_x :: real
  area_y :: real
  area_width :: real
  area_height :: real

text \<open>\<^verbatim>\<open>String.prototype.startsWith\<close> and \<^verbatim>\<open>String.prototype.includes\<close>.\<close>

definition startsWith :: "'a list \<Rightarrow> 'a list \<Rightarrow> bool" where
  "startsWith s p = (take (length p) s = p)"

fun str_includes :: "string \<Rightarrow> string \<Rightarrow> bool" where
  "str_includes [] needle = (needle = [])"
| "str_includes (c # cs) needle = (startsWith (c # cs) needle \<or> str_includes cs needle)"

subsection \<open>Numbers as strings\<close>

text \<open>The decimal digits of a natural number.\<close>

definition digitChar :: "nat \<Rightarrow> char" where
  "digitChar d = ''0123456789'' ! d"

fun digits :: "nat \<Rightarrow> string" where
  "digits n = (if n < 10 then [digitChar n] else digits (n div 10) @ [digitChar (n mod 10)])"

declare digits.simps [simp del]

text \<open>
  \<^verbatim>\<open>Number.prototype.toString\<close> on a whole number: plain decimal up to 21 digits, and from
  \<open>10^21\<close> on the exponent form (first digit, the further significant digits after a
  point, \<^verbatim>\<open>e+\<close> and the exponent). The number is taken to print with its own digits.
\<close>

definition stripZeros :: "string \<Rightarrow> string" where
  "stripZeros ds = rev (dropWhile (\<lambda>c. c = CHR ''0'') (rev ds))"

definition magnitudeToString :: "nat \<Rightarrow> string" where
  "magnitudeToString m =
     (let ds = digits m in
      if length ds \<le> 21 then ds
      else (case stripZeros ds of
              [] \<Rightarrow> ds
            | d # ds' \<Rightarrow>
                (if ds' = [] then [d] else d # CHR ''.'' # ds')
                @ ''e+'' @ digits (length ds - 1)))"

definition Number_toString :: "int \<Rightarrow> string" where
  "Number_toString n =
     (if n < 0 then CHR ''-'' # magnitudeToString (nat (- n)) else magnitudeToString (nat n))"

text \<open>
  \<^verbatim>\<open>parseInt(s, 10)\<close> on a string without leading white space: an optional sign, then the
  longest run of decimal digits; \<open>None\<close> stands for NaN, the result when there is no digit.
\<close>

definition isDigit :: "char \<Rightarrow> bool" where
  "isDigit c = (c \<in> set ''0123456789'')"

definition digitValue :: "char \<Rightarrow> nat" where
  "digitValue c = length (takeWhile (\<lambda>d. d \<noteq> c) ''0123456789'')"

definition digitsValue :: "string \<Rightarrow> nat" where
  "digitsValue ds = foldl (\<lambda>a c. 10 * a + digitValue c) 0 ds"

definition parseUnsigned :: "string \<Rightarrow> nat option" where
  "parseUnsigned s =
     (case takeWhile isDigit s of [] \<Rightarrow> None | d # ds \<Rightarrow> Some (digitsValue (d # ds)))"

definition parseInt :: "string \<Rightarrow> int option" where
  "parseInt s =
     (case s of
        [] \<Rightarrow> None
      | c # cs \<Rightarrow>
          if c = CHR ''-'' then map_option (\<lambda>m. - int m) (parseUnsigned cs)
          else if c = CHR ''+'' then map_option int (parseUnsigned cs)
          else map_option int (parseUnsigned (c # cs)))"

section \<open>The document-model library (pdf-lib) as the code uses it\<close>

text \<open>
  The library is not part of the repository. Its documents are modelled as the list of
  their pages; a page has its size in points, an opaque number standing for the content it
  was parsed or copied from, and the drawing operations this program appended to it.
  Parsing, serialising, copying a page between documents and embedding an image are
  functions of the library, taken as parameters: any of them may throw.
\<close>

datatype draw_op =
    DrawRectangle real real real real string real real
  | DrawImage nat real real real real
  | DrawText string real real real string

record PDFPage =
  page_width :: real
  page_height :: real
  page_content :: nat
  page_ops :: "draw_op list"

record PDFDocument =
  doc_pages :: "PDFPage list"
  doc_rest :: nat

record load_options =
  ignoreEncryption :: bool
  updateMetadata :: bool

record save_options =
  useObjectStreams :: bool
  addDefaultPage :: bool
  updateFieldAppearances :: bool

record pdflib =
  lib_load :: "load_options \<Rightarrow> bytes \<Rightarrow> thrown + PDFDocument"
  lib_serialize :: "save_options \<Rightarrow> PDFDocument \<Rightarrow> thrown + bytes"
  lib_copyPage :: "PDFDocument \<Rightarrow> nat \<Rightarrow> thrown + PDFPage"
  lib_embedPng :: "string \<Rightarrow> thrown + nat"
  lib_embedJpg :: "string \<Rightarrow> thrown + nat"

text \<open>The options of a call that passes none: \<^verbatim>\<open>PDFDocument.load(bytes)\<close>, \<^verbatim>\<open>doc.save()\<close>.\<close>

definition default_load :: load_options where
  "default_load = \<lparr>ignoreEncryption = False, updateMetadata = True\<rparr>"

definition permissive_load :: load_options where
  "permissive_load = \<lparr>ignoreEncryption = True, updateMetadata = False\<rparr>"

definition default_save :: save_options where
  "default_save =
     \<lparr>useObjectStreams = True, addDefaultPage = True, updateFieldAppearances = True\<rparr>"

definition create :: PDFDocument where
  "create = \<lparr>doc_pages = [], doc_rest = 0\<rparr>"

definition getPageCount :: "PDFDocument \<Rightarrow> nat" where
  "getPageCount d = length (doc_pages d)"

definition getPageIndices :: "PDFDocument \<Rightarrow> nat list" where
  "getPageIndices d = [0..<getPageCount d]"

text \<open>\<^verbatim>\<open>getPage(index)\<close> throws when the index is not that of a page.\<close>

definition getPage :: "PDFDocument \<Rightarrow> int \<Rightarrow> thrown + PDFPage" where
  "getPage d i =
     (if 0 \<le> i \<and> i < int (getPageCount d) then Inr (doc_pages d ! nat i)
      else Inl (JsError ''index out of range''))"

text \<open>\<^verbatim>\<open>addPage(page)\<close> appends; \<^verbatim>\<open>addPage([w, h])\<close> appends an empty page of that size, and
  \<^verbatim>\<open>addPage()\<close> one of the library's default size (A4).\<close>

definition addPage :: "PDFDocument \<Rightarrow> PDFPage \<Rightarrow> PDFDocument" where
  "addPage d p = d\<lparr>doc_pages := doc_pages d @ [p]\<rparr>"

definition blankPage :: "real \<Rightarrow> real \<Rightarrow> PDFPage" where
  "blankPage w h = \<lparr>page_width = w, page_height = h, page_content = 0, page_ops = []\<rparr>"

definition defaultPage :: PDFPage where
  "defaultPage = blankPage (59528 / 100) (84189 / 100)"

text \<open>
  \<^verbatim>\<open>save(options)\<close>: with \<^verbatim>\<open>addDefaultPage\<close> (the default) a document that has no page gets
  one page of the default size; then the document is serialised.
\<close>

definition preparedForSave :: "save_options \<Rightarrow> PDFDocument \<Rightarrow> PDFDocument" where
  "preparedForSave opts d =
     (if addDefaultPage opts \<and> getPageCount d = 0 then addPage d defaultPage else d)"

definition save :: "pdflib \<Rightarrow> save_options \<Rightarrow> PDFDocument \<Rightarrow> thrown + bytes" where
  "save lib opts d = lib_serialize lib opts (preparedForSave opts d)"

text \<open>\<^verbatim>\<open>copyPages(src, indices)\<close>: one copied page per index, in the order of the indices;
  the first copy that throws rejects the call.\<close>

fun copyPages :: "pdflib \<Rightarrow> PDFDocument \<Rightarrow> nat list \<Rightarrow> thrown + PDFPage list" where
  "copyPages lib src [] = Inr []"
| "copyPages lib src (i # is) =
     (case lib_copyPage lib src i of
        Inl e \<Rightarrow> Inl e
      | Inr p \<Rightarrow> (case copyPages lib src is of Inl e \<Rightarrow> Inl e | Inr ps \<Rightarrow> Inr (p # ps)))"

section \<open>\<^verbatim>\<open>src/app/utils/pdfUnlocker.ts\<close>\<close>

text \<open>
  The loop of \<^verbatim>\<open>unlockPdf\<close>: for each index of the source, in ascending order, copy that
  one page and add it to the new document. \<^verbatim>\<open>const [copiedPage] = ...\<close> takes the first
  element of the returned array (\<^verbatim>\<open>undefined\<close> if there is none, and \<^verbatim>\<open>addPage(undefined)\<close>
  adds a page of the default size).
\<close>

fun copyEachPage ::
  "pdflib \<Rightarrow> PDFDocument \<Rightarrow> nat list \<Rightarrow> PDFDocument \<Rightarrow> thrown + PDFDocument" where
  "copyEachPage lib originalPdfDoc [] newPdfDoc = Inr newPdfDoc"
| "copyEachPage lib originalPdfDoc (i # is) newPdfDoc =
     (case copyPages lib originalPdfDoc [i] of
        Inl e \<Rightarrow> Inl e
      | Inr copied \<Rightarrow>
          (case copied of
             copiedPage # _ \<Rightarrow> copyEachPage lib originalPdfDoc is (addPage newPdfDoc copiedPage)
           | [] \<Rightarrow> copyEachPage lib originalPdfDoc is (addPage newPdfDoc defaultPage)))"

text \<open>The body of the \<^verbatim>\<open>try\<close> up to the call of \<^verbatim>\<open>save()\<close>: the new document with the
  copied pages.\<close>

definition unlockedDocument :: "pdflib \<Rightarrow> File \<Rightarrow> thrown + PDFDocument" where
  "unlockedDocument lib pdfFile =
     (case arrayBuffer pdfFile of
        Inl e \<Rightarrow> Inl e
      | Inr arrayBuf \<Rightarrow>
          (case lib_load lib permissive_load arrayBuf of
             Inl e \<Rightarrow> Inl e
           | Inr originalPdfDoc \<Rightarrow>
               copyEachPage lib originalPdfDoc [0..<getPageCount originalPdfDoc] create))"

text \<open>Whatever is thrown inside is replaced by one fixed error.\<close>

definition unlockPdf :: "pdflib \<Rightarrow> File \<Rightarrow> thrown + bytes" where
  "unlockPdf lib pdfFile =
     (case unlockedDocument lib pdfFile of
        Inl e \<Rightarrow> Inl (JsError ''Failed to unlock the PDF document.'')
      | Inr newPdfDoc \<Rightarrow>
          (case save lib default_save newPdfDoc of
             Inl e \<Rightarrow> Inl (JsError ''Failed to unlock the PDF document.'')
           | Inr pdfBytes \<Rightarrow> Inr pdfBytes))"

text \<open>The test the \<^verbatim>\<open>catch\<close> of \<^verbatim>\<open>isPdfEncrypted\<close> applies to what was thrown.\<close>

definition mentionsEncryption :: "thrown \<Rightarrow> bool" where
  "mentionsEncryption error =
     (case error of
        JsError message \<Rightarrow>
          str_includes message ''encrypt'' \<or> str_includes message ''password''
          \<or> str_includes message ''permission''
      | NonError \<Rightarrow> False)"

text \<open>Reading the file and the strict load stand in the same \<^verbatim>\<open>try\<close>.\<close>

definition isPdfEncrypted :: "pdflib \<Rightarrow> File \<Rightarrow> bool" where
  "isPdfEncrypted lib pdfFile =
     (case arrayBuffer pdfFile of
        Inl error \<Rightarrow> (if mentionsEncryption error then True else False)
      | Inr arrayBuf \<Rightarrow>
          (case lib_load lib default_load arrayBuf of
             Inr doc \<Rightarrow> False
           | Inl error \<Rightarrow> (if mentionsEncryption error then True else False)))"

section \<open>\<^verbatim>\<open>new TextDecoder().decode(bytes)\<close>\<close>

text \<open>
  The platform's decoder with its defaults: UTF-8, not fatal, byte order mark not kept.
  A malformed sequence gives U+FFFD and the offending byte is read again as the start of
  the next sequence. The state is the code point so far, the number of continuation bytes
  still needed, and the bounds the next continuation byte must lie in.
\<close>

type_synonym utf8_state = "nat \<times> nat \<times> nat \<times> nat"

definition utf8_initial :: utf8_state where
  "utf8_initial = (0, 0, 0x80, 0xBF)"

definition utf8_lead :: "nat \<Rightarrow> nat list \<times> utf8_state" where
  "utf8_lead b =
     (if b \<le> 0x7F then ([b], utf8_initial)
      else if 0xC2 \<le> b \<and> b \<le> 0xDF then ([], (b mod 32, 1, 0x80, 0xBF))
      else if 0xE0 \<le> b \<and> b \<le> 0xEF then
        ([], (b mod 16, 2, (if b = 0xE0 then 0xA0 else 0x80), (if b = 0xED then 0x9F else 0xBF)))
      else if 0xF0 \<le> b \<and> b \<le> 0xF4 then
        ([], (b mod 8, 3, (if b = 0xF0 then 0x90 else 0x80), (if b = 0xF4 then 0x8F else 0xBF)))
      else ([0xFFFD], utf8_initial))"

fun utf8_decode :: "utf8_state \<Rightarrow> nat list \<Rightarrow> nat list" where
  "utf8_decode (cp, needed, lower, upper) [] = (if needed \<noteq> 0 then [0xFFFD] else [])"
| "utf8_decode (cp, needed, lower, upper) (b # bs) =
     (if needed = 0 then (case utf8_lead b of (out, st) \<Rightarrow> out @ utf8_decode st bs)
      else if b < lower \<or> upper < b then
        (case utf8_lead b of (out, st) \<Rightarrow> 0xFFFD # out @ utf8_decode st bs)
      else if needed = 1 then (cp * 64 + b mod 64) # utf8_decode utf8_initial bs
      else utf8_decode (cp * 64 + b mod 64, needed - 1, 0x80, 0xBF) bs)"

text \<open>A JavaScript string is a sequence of UTF-16 code units.\<close>

definition utf16 :: "nat \<Rightarrow> nat list" where
  "utf16 cp =
     (if cp < 0x10000 then [cp]
      else [0xD800 + (cp - 0x10000) div 1024, 0xDC00 + (cp - 0x10000) mod 1024])"

definition dropBOM :: "nat list \<Rightarrow> nat list" where
  "dropBOM cps = (case cps of [] \<Rightarrow> [] | cp # rest \<Rightarrow> if cp = 0xFEFF then rest else cp # rest)"

definition TextDecoder_decode :: "bytes \<Rightarrow> nat list" where
  "TextDecoder_decode input =
     concat (map utf16 (dropBOM (utf8_decode utf8_initial (map unat input))))"

text \<open>The string \<^verbatim>\<open>'%PDF'\<close>, and the test
  \<^verbatim>\<open>new TextDecoder().decode(result.slice(0, 8)).startsWith('%PDF')\<close>.\<close>

definition PDF_magic :: "nat list" where
  "PDF_magic = [0x25, 0x50, 0x44, 0x46]"

definition hasPdfHeader :: "bytes \<Rightarrow> bool" where
  "hasPdfHeader result = startsWith (TextDecoder_decode (take 8 result)) PDF_magic"

section \<open>\<^verbatim>\<open>processRedactions\<close>: rectangles drawn onto the pages\<close>

text \<open>\<^verbatim>\<open>REDACTION_SETTINGS\<close> of \<^verbatim>\<open>src/app/constants/pdf.ts\<close>, as far as they are used.\<close>

definition minSelectionSize :: real where
  "minSelectionSize = 10"

definition defaultRedactionColor :: string where
  "defaultRedactionColor = ''#000000''"

text \<open>
  Lines 149 to 157: the rectangle drawn for an area on a page of the given size. The
  area's coordinates are used as they are; no display scale enters.
\<close>

definition toPdfRect :: "RedactionArea \<Rightarrow> real \<Rightarrow> real \<Rightarrow> real \<times> real \<times> real \<times> real" where
  "toPdfRect area pageWidth pageHeight =
     (let x = max 0 (min (area_x area) pageWidth);
          y = max 0 (pageHeight - (area_y area + area_height area));
          rectWidth = max 1 (min (area_width area) (pageWidth - x));
          rectHeight = max 1 (min (area_height area)
                         (area_y area + area_height area - max 0 (area_y area)))
      in (x, y, rectWidth, rectHeight))"

text \<open>\<^verbatim>\<open>page.drawRectangle\<close> with the redaction colour (kept as its hex string), opacity 1
  and border width 0; it is called only when both extents are positive.\<close>

definition drawArea :: "PDFPage \<Rightarrow> RedactionArea \<Rightarrow> PDFPage" where
  "drawArea page area =
     (case toPdfRect area (page_width page) (page_height page) of
        (x, y, rectWidth, rectHeight) \<Rightarrow>
          if rectWidth > 0 \<and> rectHeight > 0
          then page\<lparr>page_ops := page_ops page
                  @ [DrawRectangle x y rectWidth rectHeight defaultRedactionColor 1 0]\<rparr>
          else page)"

text \<open>
  Grouping under a key, the keys in the order of their first insertion and each group in
  the order of insertion: \<^verbatim>\<open>if (!groups[key]) groups[key] = []; groups[key].push(x)\<close>.
\<close>

definition pushGroup :: "('a \<Rightarrow> 'k) \<Rightarrow> ('k \<times> 'a list) list \<Rightarrow> 'a \<Rightarrow> ('k \<times> 'a list) list" where
  "pushGroup key groups x =
     (if map_of groups (key x) = None then groups @ [(key x, [x])]
      else map (\<lambda>(k, xs). if k = key x then (k, xs @ [x]) else (k, xs)) groups)"

definition groupByKey :: "('a \<Rightarrow> 'k) \<Rightarrow> 'a list \<Rightarrow> ('k \<times> 'a list) list" where
  "groupByKey key xs = foldl (pushGroup key) [] xs"

text \<open>
  \<^verbatim>\<open>redactionsByPage\<close> of \<^verbatim>\<open>processRedactions\<close> is an object keyed by
  \<^verbatim>\<open>area.pageNumber.toString()\<close>. \<^verbatim>\<open>Object.entries\<close> lists the keys that are array indices
  (canonical decimal strings up to \<open>2^32 - 2\<close>) in ascending order first, then the others
  in insertion order.
\<close>

definition redactionsByPage :: "RedactionArea list \<Rightarrow> (string \<times> RedactionArea list) list" where
  "redactionsByPage redactionAreas =
     groupByKey (\<lambda>area. Number_toString (pageNumber area)) redactionAreas"

definition isArrayIndex :: "string \<Rightarrow> bool" where
  "isArrayIndex k =
     (k \<noteq> [] \<and> list_all isDigit k \<and> (k = ''0'' \<or> hd k \<noteq> CHR ''0'')
      \<and> digitsValue k \<le> 4294967294)"

definition objectEntries :: "(string \<times> 'a) list \<Rightarrow> (string \<times> 'a) list" where
  "objectEntries obj =
     sort_key (\<lambda>e. digitsValue (fst e)) (filter (\<lambda>e. isArrayIndex (fst e)) obj)
     @ filter (\<lambda>e. \<not> isArrayIndex (fst e)) obj"

text \<open>
  The loop over the entries. The page number is \<^verbatim>\<open>parseInt(pageNumberStr, 10)\<close>; a number
  outside the document is skipped; with NaN neither comparison holds and \<^verbatim>\<open>getPage\<close>
  throws. The page is fetched, drawn on and stays in the document. (The primary approach
  wraps each rectangle in a \<^verbatim>\<open>try\<close>; drawing does not throw in this model.)
\<close>

fun redactPages ::
  "PDFDocument \<Rightarrow> (string \<times> RedactionArea list) list \<Rightarrow> thrown + PDFDocument" where
  "redactPages pdfDoc [] = Inr pdfDoc"
| "redactPages pdfDoc ((pageNumberStr, areas) # rest) =
     (case parseInt pageNumberStr of
        None \<Rightarrow> Inl (JsError ''index must be a number'')
      | Some pageNo \<Rightarrow>
          if pageNo \<le> 0 \<or> pageNo > int (getPageCount pdfDoc) then redactPages pdfDoc rest
          else (case getPage pdfDoc (pageNo - 1) of
                  Inl e \<Rightarrow> Inl e
                | Inr page \<Rightarrow>
                    redactPages
                      (pdfDoc\<lparr>doc_pages :=
                         (doc_pages pdfDoc)[nat (pageNo - 1) := foldl drawArea page areas]\<rparr>)
                      rest))"

text \<open>The first pages (at most three) are fetched once to see that they can be.\<close>

fun probePages :: "PDFDocument \<Rightarrow> nat list \<Rightarrow> thrown option" where
  "probePages pdfDoc [] = None"
| "probePages pdfDoc (i # is) =
     (case getPage pdfDoc (int i) of
        Inl pageError \<Rightarrow>
          Some (JsError (''Cannot access page '' @ Number_toString (int i + 1)
                  @ '' - PDF may be corrupted or incompatible''))
      | Inr page \<Rightarrow> probePages pdfDoc is)"

text \<open>The checks an approach runs on what it saved, each failure a throw with the
  approach's own message: too small, no header, not loadable.\<close>

definition checkSaved :: "pdflib \<Rightarrow> string \<times> string \<times> string \<Rightarrow> bytes \<Rightarrow> thrown + bytes" where
  "checkSaved lib messages savedBytes =
     (case messages of
        (tooSmall, noHeader, notLoadable) \<Rightarrow>
          if length savedBytes < 1000 then Inl (JsError tooSmall)
          else if \<not> hasPdfHeader savedBytes then Inl (JsError noHeader)
          else (case lib_load lib default_load savedBytes of
                  Inl validateError \<Rightarrow> Inl (JsError notLoadable)
                | Inr doc \<Rightarrow> Inr savedBytes))"

text \<open>Lines 83 to 221: draw onto the pages of the loaded document itself.\<close>

definition primaryApproach :: "pdflib \<Rightarrow> bytes \<Rightarrow> RedactionArea list \<Rightarrow> thrown + bytes" where
  "primaryApproach lib arrayBuf redactionAreas =
     (case lib_load lib permissive_load arrayBuf of
        Inl e \<Rightarrow> Inl e
      | Inr pdfDoc \<Rightarrow>
          if getPageCount pdfDoc \<le> 0 then Inl (JsError ''PDF has no pages'')
          else (case probePages pdfDoc [0..<min 3 (getPageCount pdfDoc)] of
                  Some e \<Rightarrow> Inl e
                | None \<Rightarrow>
                    (case redactPages pdfDoc (objectEntries (redactionsByPage redactionAreas)) of
                       Inl e \<Rightarrow> Inl e
                     | Inr redacted \<Rightarrow>
                         (case save lib
                                 \<lparr>useObjectStreams = False, addDefaultPage = False,
                                  updateFieldAppearances = False\<rparr> redacted of
                            Inl e \<Rightarrow> Inl e
                          | Inr redactedPdfBytes \<Rightarrow>
                              checkSaved lib
                                (''Generated PDF appears to be invalid (too small)'',
                                 ''Generated PDF lacks proper PDF header'',
                                 ''Generated PDF validation failed - it may be corrupted'')
                                redactedPdfBytes))))"

text \<open>Lines 228 to 324: copy every page into a new document and draw there.\<close>

definition fallbackApproach :: "pdflib \<Rightarrow> bytes \<Rightarrow> RedactionArea list \<Rightarrow> thrown + bytes" where
  "fallbackApproach lib arrayBuf redactionAreas =
     (case lib_load lib permissive_load arrayBuf of
        Inl e \<Rightarrow> Inl e
      | Inr originalDoc \<Rightarrow>
          (case copyPages lib originalDoc (getPageIndices originalDoc) of
             Inl e \<Rightarrow> Inl e
           | Inr copiedPages \<Rightarrow>
               (case redactPages (foldl addPage create copiedPages)
                       (objectEntries (redactionsByPage redactionAreas)) of
                  Inl e \<Rightarrow> Inl e
                | Inr newDoc \<Rightarrow>
                    (case save lib
                            \<lparr>useObjectStreams = False, addDefaultPage = False,
                             updateFieldAppearances = True\<rparr> newDoc of
                       Inl e \<Rightarrow> Inl e
                     | Inr fallbackBytes \<Rightarrow>
                         checkSaved lib
                           (''Fallback PDF is too small, likely invalid'',
                            ''Fallback PDF lacks proper PDF header'',
                            ''Fallback PDF validation failed - it may be corrupted'')
                           fallbackBytes))))"

text \<open>
  \<^verbatim>\<open>processRedactions\<close>. Reading the file stands in the outer \<^verbatim>\<open>try\<close>, whose \<^verbatim>\<open>catch\<close> reads
  the file again outside any \<^verbatim>\<open>try\<close>: a file that cannot be read rejects the call. With
  nothing to redact the bytes are returned. A file the strict load rejects throws inside
  the outer \<^verbatim>\<open>try\<close>, and the \<^verbatim>\<open>catch\<close> returns the bytes. Otherwise the primary approach,
  on its failure the fallback, on its failure the original bytes.
\<close>

definition processRedactions :: "pdflib \<Rightarrow> File \<Rightarrow> RedactionArea list \<Rightarrow> thrown + bytes" where
  "processRedactions lib pdfFile redactionAreas =
     (case arrayBuffer pdfFile of
        Inl readError \<Rightarrow> Inl readError
      | Inr arrayBuf \<Rightarrow>
          if length redactionAreas = 0 then Inr arrayBuf
          else (case lib_load lib default_load arrayBuf of
                  Inl verifyError \<Rightarrow> Inr arrayBuf
                | Inr verifyDoc \<Rightarrow>
                    (case primaryApproach lib arrayBuf redactionAreas of
                       Inr redactedPdfBytes \<Rightarrow> Inr redactedPdfBytes
                     | Inl mainError \<Rightarrow>
                         (case fallbackApproach lib arrayBuf redactionAreas of
                            Inr fallbackBytes \<Rightarrow> Inr fallbackBytes
                          | Inl fallbackError \<Rightarrow> Inr arrayBuf))))"

section \<open>The renderer (pdf.js) and the canvas as the code uses them\<close>

text \<open>
  Neither is part of the repository. A canvas is its size, the drawing state the code
  sets, and the list of what was drawn; assigning its width or height clears it and
  resets the state. The dynamic import of the library, opening a document, fetching a
  page, the viewport of a page at a scale, rendering, obtaining a 2D context and encoding
  the canvas are parameters. A page proxy is a number.
\<close>

datatype canvas_op =
    FillRect string real real real real
  | RenderedPage nat
  | FillText string string string real real
  | StrokeLine string real real real real real
  | StrokeRect string real real real real real

record canvas =
  canvas_width :: int
  canvas_height :: int
  fillStyle :: string
  strokeStyle :: string
  lineWidth :: real
  font :: string
  canvas_ops :: "canvas_op list"

record PDFDocumentProxy =
  numPages :: nat
  proxy_id :: nat

record renderer =
  js_import :: "thrown option"
  js_getDocument :: "bool \<Rightarrow> bytes \<Rightarrow> thrown + PDFDocumentProxy"
  js_getPage :: "PDFDocumentProxy \<Rightarrow> nat \<Rightarrow> thrown + nat"
  js_getViewport :: "nat \<Rightarrow> real \<Rightarrow> real \<times> real"
  js_render :: "nat \<Rightarrow> real \<times> real \<Rightarrow> thrown option"
  dom_getContext :: "bool \<Rightarrow> bool"
  dom_toDataURL :: "string \<Rightarrow> real \<Rightarrow> canvas \<Rightarrow> string"

definition createCanvas :: canvas where
  "createCanvas =
     \<lparr>canvas_width = 300, canvas_height = 150, fillStyle = ''#000000'',
      strokeStyle = ''#000000'', lineWidth = 1, font = ''10px sans-serif'', canvas_ops = []\<rparr>"

definition resize :: "canvas \<Rightarrow> int \<Rightarrow> int \<Rightarrow> canvas" where
  "resize c w h = createCanvas\<lparr>canvas_width := w, canvas_height := h\<rparr>"

definition fillRect :: "canvas \<Rightarrow> real \<Rightarrow> real \<Rightarrow> real \<Rightarrow> real \<Rightarrow> canvas" where
  "fillRect c x y w h = c\<lparr>canvas_ops := canvas_ops c @ [FillRect (fillStyle c) x y w h]\<rparr>"

definition strokeLine :: "canvas \<Rightarrow> real \<Rightarrow> real \<Rightarrow> real \<Rightarrow> real \<Rightarrow> canvas" where
  "strokeLine c x1 y1 x2 y2 =
     c\<lparr>canvas_ops := canvas_ops c @ [StrokeLine (strokeStyle c) (lineWidth c) x1 y1 x2 y2]\<rparr>"

text \<open>A cleared canvas of the page's size at the scale: the start of each page.\<close>

definition clearedCanvas :: "canvas \<Rightarrow> real \<times> real \<Rightarrow> canvas" where
  "clearedCanvas c viewport =
     (let c1 = resize c \<lfloor>fst viewport\<rfloor> \<lfloor>snd viewport\<rfloor>;
          c2 = c1\<lparr>fillStyle := ''#FFFFFF''\<rparr>
      in fillRect c2 0 0 (real_of_int (canvas_width c2)) (real_of_int (canvas_height c2)))"

text \<open>\<^verbatim>\<open>redactionsByPage.get(i) || []\<close> on the \<^verbatim>\<open>Map\<close> keyed by the page number itself.\<close>

definition pageRedactionsOf :: "RedactionArea list \<Rightarrow> nat \<Rightarrow> RedactionArea list" where
  "pageRedactionsOf redactionAreas i =
     (case map_of (groupByKey pageNumber redactionAreas) (int i) of
        None \<Rightarrow> []
      | Some areas \<Rightarrow> areas)"

text \<open>The image of the canvas as a page of the new document.\<close>

definition addImagePage :: "PDFDocument \<Rightarrow> nat \<Rightarrow> real \<Rightarrow> real \<Rightarrow> PDFDocument" where
  "addImagePage newPdfDoc img pageWidth pageHeight =
     addPage newPdfDoc
       ((blankPage pageWidth pageHeight)\<lparr>page_ops := [DrawImage img 0 0 pageWidth pageHeight]\<rparr>)"

subsection \<open>\<^verbatim>\<open>canvasRedaction\<close>\<close>

definition paintPlain :: "real \<Rightarrow> canvas \<Rightarrow> RedactionArea \<Rightarrow> canvas" where
  "paintPlain scale c area =
     fillRect c (area_x area * scale) (area_y area * scale)
       (area_width area * scale) (area_height area * scale)"

text \<open>One round per page number: a page that cannot be fetched or whose image cannot be
  embedded rejects the whole call; a page that does not render is left out.\<close>

fun canvasPages ::
  "pdflib \<Rightarrow> renderer \<Rightarrow> PDFDocumentProxy \<Rightarrow> RedactionArea list \<Rightarrow> nat list
     \<Rightarrow> canvas \<times> PDFDocument \<Rightarrow> thrown + canvas \<times> PDFDocument" where
  "canvasPages lib js pdfDoc redactionAreas [] st = Inr st"
| "canvasPages lib js pdfDoc redactionAreas (i # is) (cv, newPdfDoc) =
     (case js_getPage js pdfDoc i of
        Inl e \<Rightarrow> Inl e
      | Inr page \<Rightarrow>
          (let scale = 2;
               viewport = js_getViewport js page scale;
               c1 = clearedCanvas cv viewport
           in (case js_render js page viewport of
                 Some renderError \<Rightarrow> canvasPages lib js pdfDoc redactionAreas is (c1, newPdfDoc)
               | None \<Rightarrow>
                   (let c2 = c1\<lparr>canvas_ops := canvas_ops c1 @ [RenderedPage page]\<rparr>;
                        pageRedactions = pageRedactionsOf redactionAreas i;
                        c3 = (if length pageRedactions > 0
                              then foldl (paintPlain scale)
                                     (c2\<lparr>fillStyle := defaultRedactionColor\<rparr>) pageRedactions
                              else c2)
                    in (case lib_embedJpg lib (dom_toDataURL js ''image/jpeg'' (92 / 100) c3) of
                          Inl e \<Rightarrow> Inl e
                        | Inr jpegImage \<Rightarrow>
                            canvasPages lib js pdfDoc redactionAreas is
                              (c3, addImagePage newPdfDoc jpegImage
                                     (fst viewport / scale) (snd viewport / scale)))))))"

definition canvasRedaction ::
  "pdflib \<Rightarrow> renderer \<Rightarrow> File \<Rightarrow> RedactionArea list \<Rightarrow> thrown + bytes" where
  "canvasRedaction lib js pdfFile redactionAreas =
     (case js_import js of
        Some e \<Rightarrow> Inl e
      | None \<Rightarrow>
     (case arrayBuffer pdfFile of
        Inl e \<Rightarrow> Inl e
      | Inr arrayBuf \<Rightarrow>
     (case js_getDocument js False arrayBuf of
        Inl e \<Rightarrow> Inl e
      | Inr pdfDoc \<Rightarrow>
          if \<not> dom_getContext js False then Inl (JsError ''Could not create canvas context'')
          else (case canvasPages lib js pdfDoc redactionAreas [1..<Suc (numPages pdfDoc)]
                       (createCanvas, create) of
                  Inl e \<Rightarrow> Inl e
                | Inr (cv, newPdfDoc) \<Rightarrow>
                    (case save lib default_save newPdfDoc of
                       Inl e \<Rightarrow> Inl e
                     | Inr pdfBytes \<Rightarrow>
                         if length pdfBytes < 1000
                         then Inl (JsError ''Generated PDF is too small, likely invalid'')
                         else Inr pdfBytes)))))"

subsection \<open>\<^verbatim>\<open>screenshotBasedRedaction\<close>\<close>

text \<open>The two diagonal strokes of one round of the hatch loop, at offset \<open>i\<close>.\<close>

definition hatchRound :: "real \<Rightarrow> real \<Rightarrow> real \<Rightarrow> real \<Rightarrow> real \<Rightarrow> canvas \<Rightarrow> real \<Rightarrow> canvas" where
  "hatchRound scale x y w h c i =
     (let c1 = strokeLine (c\<lparr>lineWidth := 2 * scale\<rparr>) (x + min i w) y x (y + min i h)
      in strokeLine (c1\<lparr>lineWidth := 2 * scale\<rparr>)
           (x + max 0 (i - h)) (y + min i h) (x + min i w) (y + max 0 (i - w)))"

text \<open>The offsets \<open>0, p, 2p, ...\<close> below the extent that the loop
  \<^verbatim>\<open>for (let i = 0; i < width + height; i += patternSize)\<close> visits.\<close>

definition hatchOffsets :: "real \<Rightarrow> real \<Rightarrow> real list" where
  "hatchOffsets patternSize extent =
     map (\<lambda>k. real k * patternSize) [0..<nat \<lceil>extent / patternSize\<rceil>]"

definition paintHatched :: "real \<Rightarrow> canvas \<Rightarrow> RedactionArea \<Rightarrow> canvas" where
  "paintHatched scale c area =
     (let x = area_x area * scale; y = area_y area * scale;
          w = area_width area * scale; h = area_height area * scale;
          c1 = fillRect c x y w h;
          c2 = c1\<lparr>fillStyle := ''#333333''\<rparr>;
          c3 = foldl (hatchRound scale x y w h) c2 (hatchOffsets (10 * scale) (w + h));
          c4 = c3\<lparr>fillStyle := defaultRedactionColor, strokeStyle := ''#000000'', lineWidth := 2\<rparr>
      in c4\<lparr>canvas_ops := canvas_ops c4 @ [StrokeRect (strokeStyle c4) (lineWidth c4) x y w h]\<rparr>)"

text \<open>What the \<^verbatim>\<open>try\<close> of one page does once the page is fetched; it throws only when
  the image cannot be embedded.\<close>

definition screenshotPage ::
  "pdflib \<Rightarrow> renderer \<Rightarrow> RedactionArea list \<Rightarrow> nat \<Rightarrow> nat \<Rightarrow> canvas \<times> PDFDocument
     \<Rightarrow> canvas \<times> (thrown + PDFDocument)" where
  "screenshotPage lib js redactionAreas i page st =
     (let scale = 2;
          viewport = js_getViewport js page scale;
          c1 = clearedCanvas (fst st) viewport;
          c2 = (case js_render js page viewport of
                  None \<Rightarrow> c1\<lparr>canvas_ops := canvas_ops c1 @ [RenderedPage page]\<rparr>
                | Some renderError \<Rightarrow>
                    (let e1 = fillRect (c1\<lparr>fillStyle := ''#FFFFFF''\<rparr>) 0 0
                                (real_of_int (canvas_width c1)) (real_of_int (canvas_height c1));
                         e2 = e1\<lparr>fillStyle := ''#FF0000'', font := ''20px Arial''\<rparr>
                     in e2\<lparr>canvas_ops := canvas_ops e2
                              @ [FillText (fillStyle e2) (font e2)
                                   (''Error rendering page '' @ digits i) 50 100]\<rparr>));
          pageRedactions = pageRedactionsOf redactionAreas i;
          c3 = (if length pageRedactions > 0
                then foldl (paintHatched scale)
                       (c2\<lparr>fillStyle := defaultRedactionColor\<rparr>) pageRedactions
                else c2)
      in (c3, (case lib_embedPng lib (dom_toDataURL js ''image/png'' 1 c3) of
                 Inl e \<Rightarrow> Inl e
               | Inr pngImage \<Rightarrow>
                   Inr (addImagePage (snd st) pngImage
                          (fst viewport / scale) (snd viewport / scale)))))"

text \<open>One round per page number: whatever is thrown for a page is caught, and a page of
  US Letter size carrying an error text in red takes the page's place.\<close>

fun screenshotPages ::
  "pdflib \<Rightarrow> renderer \<Rightarrow> PDFDocumentProxy \<Rightarrow> RedactionArea list \<Rightarrow> nat list
     \<Rightarrow> canvas \<times> PDFDocument \<Rightarrow> canvas \<times> PDFDocument" where
  "screenshotPages lib js pdfDoc redactionAreas [] st = st"
| "screenshotPages lib js pdfDoc redactionAreas (i # is) (cv, newPdfDoc) =
     (let errorPage = (blankPage 612 792)
            \<lparr>page_ops := [DrawText (''Error processing page '' @ digits i) 50 700 20
                            ''rgb(1, 0, 0)'']\<rparr>
      in (case js_getPage js pdfDoc i of
            Inl pageError \<Rightarrow>
              screenshotPages lib js pdfDoc redactionAreas is (cv, addPage newPdfDoc errorPage)
          | Inr page \<Rightarrow>
              (case screenshotPage lib js redactionAreas i page (cv, newPdfDoc) of
                 (cv', Inl pageError) \<Rightarrow>
                   screenshotPages lib js pdfDoc redactionAreas is (cv', addPage newPdfDoc errorPage)
               | (cv', Inr newPdfDoc') \<Rightarrow>
                   screenshotPages lib js pdfDoc redactionAreas is (cv', newPdfDoc'))))"

definition screenshotBasedRedaction ::
  "pdflib \<Rightarrow> renderer \<Rightarrow> File \<Rightarrow> RedactionArea list \<Rightarrow> thrown + bytes" where
  "screenshotBasedRedaction lib js pdfFile redactionAreas =
     (case js_import js of
        Some e \<Rightarrow> Inl e
      | None \<Rightarrow>
     (case arrayBuffer pdfFile of
        Inl e \<Rightarrow> Inl e
      | Inr arrayBuf \<Rightarrow>
     (case js_getDocument js True arrayBuf of
        Inl e \<Rightarrow> Inl e
      | Inr pdfDoc \<Rightarrow>
          if \<not> dom_getContext js True then Inl (JsError ''Could not create canvas context'')
          else save lib
                 \<lparr>useObjectStreams = True, addDefaultPage = False, updateFieldAppearances = True\<rparr>
                 (snd (screenshotPages lib js pdfDoc redactionAreas [1..<Suc (numPages pdfDoc)]
                         (createCanvas, create))))))"

section \<open>\<^verbatim>\<open>redactPDF\<close>\<close>

text \<open>
  The console lines that tell which branch ran are kept as a log beside the result:
  the exact copy, the start of an attempt, the three rejections of a result, the
  acceptance, a thrown attempt, and the exhaustion of all attempts.
\<close>

datatype event =
    ExactCopy
  | Trying string
  | Suspicious string nat
  | InvalidHeader string
  | CannotLoadBack string
  | Succeeded string
  | Failed string
  | AllFailed

text \<open>Lines 723 to 744: the checks on the result of an attempt, in the order the code
  makes them; \<open>None\<close> when the result is returned, else the rejection that is logged
  before the loop moves on.\<close>

definition validateResult :: "pdflib \<Rightarrow> string \<Rightarrow> bytes \<Rightarrow> event option" where
  "validateResult lib name result =
     (if length result < 1000 then Some (Suspicious name (length result))
      else if \<not> hasPdfHeader result then Some (InvalidHeader name)
      else (case lib_load lib default_load result of
              Inr doc \<Rightarrow> None
            | Inl loadError \<Rightarrow> Some (CannotLoadBack name)))"

text \<open>The loop over the attempts; an attempt is its name and what its method settles to.\<close>

fun tryAttempts ::
  "pdflib \<Rightarrow> (string \<times> (thrown + bytes)) list \<Rightarrow> bytes option \<times> event list" where
  "tryAttempts lib [] = (None, [])"
| "tryAttempts lib ((name, outcome) # rest) =
     (case outcome of
        Inl error \<Rightarrow>
          (case tryAttempts lib rest of (r, lg) \<Rightarrow> (r, Trying name # Failed name # lg))
      | Inr result \<Rightarrow>
          (case validateResult lib name result of
             None \<Rightarrow> (Some result, [Trying name, Succeeded name])
           | Some rejection \<Rightarrow>
               (case tryAttempts lib rest of (r, lg) \<Rightarrow> (r, Trying name # rejection # lg))))"

definition attempts ::
  "pdflib \<Rightarrow> renderer \<Rightarrow> File \<Rightarrow> RedactionArea list \<Rightarrow> (string \<times> (thrown + bytes)) list" where
  "attempts lib js pdfFile redactionAreas =
     [(''Screenshot approach'', screenshotBasedRedaction lib js pdfFile redactionAreas),
      (''Primary approach'', processRedactions lib pdfFile redactionAreas),
      (''Canvas approach'', canvasRedaction lib js pdfFile redactionAreas)]"

text \<open>
  \<^verbatim>\<open>redactPDF\<close> settles to a value (\<open>Inr\<close>) or rejects (\<open>Inl\<close>). Both reads of the file
  (for the exact copy, and for the bytes kept as the last resort) stand outside any
  \<^verbatim>\<open>try\<close>, so a file that cannot be read rejects the call. Every call that can throw
  inside the outer \<^verbatim>\<open>try\<close> lies in the inner \<^verbatim>\<open>try\<close> of the loop, so the outer \<^verbatim>\<open>catch\<close>,
  which would also return the original bytes, is never entered.
\<close>

definition redactPDF ::
  "pdflib \<Rightarrow> renderer \<Rightarrow> File \<Rightarrow> RedactionArea list \<Rightarrow> bool
     \<Rightarrow> (thrown + bytes) \<times> event list" where
  "redactPDF lib js pdfFile redactionAreas copyOnly =
     (if copyOnly \<or> length redactionAreas = 0 then
        (case arrayBuffer pdfFile of
           Inl readError \<Rightarrow> (Inl readError, [ExactCopy])
         | Inr pdfBytes \<Rightarrow> (Inr pdfBytes, [ExactCopy]))
      else
        (case arrayBuffer pdfFile of
           Inl readError \<Rightarrow> (Inl readError, [])
         | Inr originalPdfBytes \<Rightarrow>
             (case tryAttempts lib (attempts lib js pdfFile redactionAreas) of
                (Some result, lg) \<Rightarrow> (Inr result, lg)
              | (None, lg) \<Rightarrow> (Inr originalPdfBytes, lg @ [AllFailed]))))"

section \<open>The store of redaction areas\<close>

text \<open>
  \<^verbatim>\<open>PDFCanvas.tsx\<close> holds the drag in progress (\<^verbatim>\<open>isDrawing\<close>, \<^verbatim>\<open>startPos\<close>,
  \<^verbatim>\<open>currentArea\<close>), \<^verbatim>\<open>PDFViewer.tsx\<close> the list \<^verbatim>\<open>redactionAreas\<close> and the current page, and
  \<^verbatim>\<open>page.tsx\<close> the copy of the list it is told of through \<^verbatim>\<open>onSelectionChange\<close>. The
  positions are those of the pointer relative to the canvas. Touch events run the same
  handlers.
\<close>

record ui =
  redactionAreas :: "RedactionArea list"
  selections :: "RedactionArea list"
  currentPage :: int
  isDrawing :: bool
  startPos :: "(real \<times> real) option"
  currentArea :: "RedactionArea option"

definition initial_ui :: ui where
  "initial_ui =
     \<lparr>redactionAreas = [], selections = [], currentPage = 1, isDrawing = False,
      startPos = None, currentArea = None\<rparr>"

definition handleMouseDown :: "bool \<Rightarrow> real \<Rightarrow> real \<Rightarrow> ui \<Rightarrow> ui" where
  "handleMouseDown enableDrawing x y s =
     (if \<not> enableDrawing then s
      else s\<lparr>isDrawing := True, startPos := Some (x, y),
             currentArea := Some \<lparr>pageNumber = currentPage s, area_x = x, area_y = y,
                                  area_width = 0, area_height = 0\<rparr>\<rparr>)"

definition handleMouseMove :: "real \<Rightarrow> real \<Rightarrow> ui \<Rightarrow> ui" where
  "handleMouseMove x y s =
     (if \<not> isDrawing s then s
      else (case startPos s of
              None \<Rightarrow> s
            | Some (sx, sy) \<Rightarrow>
                s\<lparr>currentArea := Some \<lparr>pageNumber = currentPage s, area_x = sx, area_y = sy,
                                        area_width = x - sx, area_height = y - sy\<rparr>\<rparr>))"

text \<open>\<^verbatim>\<open>handleRedactionAreaCreated\<close>: the store's add.\<close>

definition handleRedactionAreaCreated :: "RedactionArea \<Rightarrow> ui \<Rightarrow> ui" where
  "handleRedactionAreaCreated area s =
     (let updatedAreas = redactionAreas s @ [area]
      in s\<lparr>redactionAreas := updatedAreas, selections := updatedAreas\<rparr>)"

text \<open>Lines 371 to 383 of \<^verbatim>\<open>PDFCanvas.tsx\<close>: width and height made positive.\<close>

definition normalizedArea :: "RedactionArea \<Rightarrow> RedactionArea" where
  "normalizedArea area =
     area\<lparr>area_x := (if area_width area < 0 then area_x area + area_width area else area_x area),
          area_y := (if area_height area < 0 then area_y area + area_height area else area_y area),
          area_width := \<bar>area_width area\<bar>,
          area_height := \<bar>area_height area\<bar>\<rparr>"

definition handleMouseUp :: "ui \<Rightarrow> ui" where
  "handleMouseUp s =
     (case currentArea s of
        None \<Rightarrow> s\<lparr>isDrawing := False\<rparr>
      | Some area \<Rightarrow>
          if \<not> isDrawing s then s\<lparr>isDrawing := False\<rparr>
          else (let minSize = minSelectionSize;
                    s' = (if \<bar>area_width area\<bar> > minSize \<and> \<bar>area_height area\<bar> > minSize
                          then handleRedactionAreaCreated (normalizedArea area) s
                          else s)
                in s'\<lparr>isDrawing := False, currentArea := None\<rparr>))"

text \<open>\<^verbatim>\<open>onRemoveArea\<close>: the store's remove-by-index,
  \<^verbatim>\<open>redactionAreas.filter((_, i) => i !== index)\<close>.\<close>

definition removeAt :: "int \<Rightarrow> 'a list \<Rightarrow> 'a list" where
  "removeAt index xs = map snd (filter (\<lambda>p. int (fst p) \<noteq> index) (enumerate 0 xs))"

definition onRemoveArea :: "int \<Rightarrow> ui \<Rightarrow> ui" where
  "onRemoveArea index s =
     (let updatedAreas = removeAt index (redactionAreas s)
      in s\<lparr>redactionAreas := updatedAreas, selections := updatedAreas\<rparr>)"

text \<open>A new document resets the viewer (page 1, no areas); a new or updated file clears
  the list \<^verbatim>\<open>page.tsx\<close> holds.\<close>

definition documentChanged :: "ui \<Rightarrow> ui" where
  "documentChanged s = s\<lparr>currentPage := 1, redactionAreas := []\<rparr>"

definition handleFileUpload :: "ui \<Rightarrow> ui" where
  "handleFileUpload s = s\<lparr>selections := []\<rparr>"

datatype ui_event =
    MouseDown bool real real
  | MouseMove real real
  | MouseUp
  | RemoveArea int
  | DocumentChanged
  | FileUpload
  | SetCurrentPage int

fun ui_step :: "ui_event \<Rightarrow> ui \<Rightarrow> ui" where
  "ui_step (MouseDown enableDrawing x y) s = handleMouseDown enableDrawing x y s"
| "ui_step (MouseMove x y) s = handleMouseMove x y s"
| "ui_step MouseUp s = handleMouseUp s"
| "ui_step (RemoveArea index) s = onRemoveArea index s"
| "ui_step DocumentChanged s = documentChanged s"
| "ui_step FileUpload s = handleFileUpload s"
| "ui_step (SetCurrentPage p) s = s\<lparr>currentPage := p\<rparr>"

text \<open>The state after a sequence of events, from the initial state.\<close>

definition ui_run :: "ui_event list \<Rightarrow> ui" where
  "ui_run events = foldl (\<lambda>s e. ui_step e s) initial_ui events"

text \<open>What the invariant says of one area.\<close>

definition largeEnough :: "RedactionArea \<Rightarrow> bool" where
  "largeEnough area =
     (area_width area > minSelectionSize \<and> area_height area > minSelectionSize)"

section \<open>The coordinate mapping as the specification words it\<close>










section \<open>Notions used in the statements and proofs\<close>

text \<open>The file signature \<^verbatim>\<open>%PDF\<close> and the UTF-8 byte order mark, as bytes.\<close>

definition PDF_signature :: bytes where
  "PDF_signature = [0x25, 0x50, 0x44, 0x46]"

definition BOM_bytes :: bytes where
  "BOM_bytes = [0xEF, 0xBB, 0xBF]"

text \<open>The code units of a list of code points.\<close>

definition units :: "nat list \<Rightarrow> nat list" where
  "units cps = concat (map utf16 cps)"

text \<open>A decoder state inside a sequence whose code point will not be below 0x80, and an
  output that does not start with a code point below 0x80.\<close>

definition pending :: "utf8_state \<Rightarrow> bool" where
  "pending st =
     (case st of
        (cp, needed, lower, upper) \<Rightarrow>
          upper \<le> 0xBF
          \<and> ((needed = 1 \<and> 2 \<le> cp) \<or> (needed = 2 \<and> (1 \<le> cp \<or> 0x90 \<le> lower))
               \<or> (needed = 3 \<and> (1 \<le> cp \<or> 0x90 \<le> lower))))"

definition big :: "nat list \<Rightarrow> bool" where
  "big out = (case out of [] \<Rightarrow> True | c # _ \<Rightarrow> 0x80 \<le> c)"

text \<open>What an attempt settled to is accepted by \<open>redactPDF\<close>: it resolved, and its
  result passes the three checks.\<close>

definition accepted :: "pdflib \<Rightarrow> thrown + bytes \<Rightarrow> bool" where
  "accepted lib outcome =
     (case outcome of
        Inl error \<Rightarrow> False
      | Inr result \<Rightarrow>
          1000 \<le> length result \<and> hasPdfHeader result
          \<and> (case lib_load lib default_load result of Inl e \<Rightarrow> False | Inr doc \<Rightarrow> True))"

text \<open>The names of the attempts a log says were started, in order.\<close>

fun triedNames :: "event list \<Rightarrow> string list" where
  "triedNames [] = []"
| "triedNames (Trying name # lg) = name # triedNames lg"
| "triedNames (e # lg) = triedNames lg"

text \<open>Every area held: in the viewer's list or in the copy \<^verbatim>\<open>page.tsx\<close> holds.\<close>

definition stored :: "ui \<Rightarrow> RedactionArea set" where
  "stored s = set (redactionAreas s) \<union> set (selections s)"

section \<open>Sample inputs\<close>

text \<open>Buffers: a thousand bytes that start with the signature; the same after a byte
  order mark; two bytes that are no PDF.\<close>

definition goodPdf :: bytes where
  "goodPdf = PDF_signature @ replicate 996 0x20"

definition bomPdf :: bytes where
  "bomPdf = BOM_bytes @ PDF_signature @ replicate 993 0x20"

definition garbage :: bytes where
  "garbage = [0x00, 0x01]"

definition garbageFile :: File where
  "garbageFile = \<lparr>file_name = ''garbage.pdf'', file_read = Inr garbage\<rparr>"

definition bomFile :: File where
  "bomFile = \<lparr>file_name = ''bom.pdf'', file_read = Inr bomPdf\<rparr>"

definition emptyFile :: File where
  "emptyFile = \<lparr>file_name = ''empty.pdf'', file_read = Inr []\<rparr>"

text \<open>A file on disk that cannot be read any more, with the error a browser gives.\<close>

definition unreadableFile :: File where
  "unreadableFile =
     \<lparr>file_name = ''gone.pdf'',
      file_read = Inl (JsError ''The requested file could not be read, typically due to permission problems that have occurred after a reference to a file was acquired.'')\<rparr>"

definition area1 :: RedactionArea where
  "area1 = \<lparr>pageNumber = 1, area_x = 100, area_y = 100, area_width = 50, area_height = 50\<rparr>"

text \<open>
  A library that parses only the two sample PDFs (as a document of one page), writes
  every document as \<open>goodPdf\<close> and copies pages as they are.
\<close>

definition onePage :: PDFDocument where
  "onePage = \<lparr>doc_pages = [blankPage 612 792], doc_rest = 1\<rparr>"

definition pickyLib :: pdflib where
  "pickyLib =
     \<lparr>lib_load = (\<lambda>opts b. if b = goodPdf \<or> b = bomPdf then Inr onePage
                              else Inl (JsError ''Failed to parse PDF document'')),
      lib_serialize = (\<lambda>opts d. Inr goodPdf),
      lib_copyPage = (\<lambda>d i. Inr (doc_pages d ! i)),
      lib_embedPng = (\<lambda>s. Inr 0),
      lib_embedJpg = (\<lambda>s. Inr 0)\<rparr>"

text \<open>
  A library that rejects an encrypted document unless told to ignore encryption, and
  then finds two pages; a copied page is tagged with its index.
\<close>

definition encryptedLib :: pdflib where
  "encryptedLib =
     \<lparr>lib_load = (\<lambda>opts b.
         if ignoreEncryption opts
         then Inr \<lparr>doc_pages = [blankPage 612 792, blankPage 612 792], doc_rest = 1\<rparr>
         else Inl (JsError ''Input document to PDFDocument.load is encrypted.'')),
      lib_serialize = (\<lambda>opts d. Inr (replicate (length (doc_pages d)) 37)),
      lib_copyPage = (\<lambda>d i. Inr ((doc_pages d ! i)\<lparr>page_content := Suc i\<rparr>)),
      lib_embedPng = (\<lambda>s. Inr 0),
      lib_embedJpg = (\<lambda>s. Inr 0)\<rparr>"

text \<open>
  A library for which a buffer of \<open>n\<close> bytes is a document of \<open>n\<close> blank pages: it reads
  back as many pages as it wrote.
\<close>

definition countingLib :: pdflib where
  "countingLib =
     \<lparr>lib_load = (\<lambda>opts b. Inr \<lparr>doc_pages = replicate (length b) (blankPage 612 792),
                                  doc_rest = 0\<rparr>),
      lib_serialize = (\<lambda>opts d. Inr (replicate (length (doc_pages d)) 37)),
      lib_copyPage = (\<lambda>d i. Inr (doc_pages d ! i)),
      lib_embedPng = (\<lambda>s. Inr 0),
      lib_embedJpg = (\<lambda>s. Inr 0)\<rparr>"

definition twoPageFile :: File where
  "twoPageFile = \<lparr>file_name = ''two.pdf'', file_read = Inr [37, 37]\<rparr>"

text \<open>Renderers: one whose import fails; one that opens every document as one without
  pages; one that does so only for \<^verbatim>\<open>canvasRedaction\<close>'s call.\<close>

definition noJs :: renderer where
  "noJs =
     \<lparr>js_import = Some (JsError ''Failed to fetch dynamically imported module''),
      js_getDocument = (\<lambda>noRange b. Inl (JsError ''Invalid PDF structure'')),
      js_getPage = (\<lambda>d i. Inl (JsError ''Invalid page request'')),
      js_getViewport = (\<lambda>p s. (612 * s, 792 * s)),
      js_render = (\<lambda>p v. None),
      dom_getContext = (\<lambda>w. True),
      dom_toDataURL = (\<lambda>t q c. ''data:'')\<rparr>"


definition canvasOnlyJs :: renderer where
  "canvasOnlyJs =
     noJs\<lparr>js_import := None,
          js_getDocument := (\<lambda>noRange b. if noRange then Inl (JsError ''Invalid PDF structure'')
                                         else Inr \<lparr>numPages = 0, proxy_id = 0\<rparr>)\<rparr>"

section \<open>The header test in bytes\<close>

text \<open>Arithmetic of the continuation bytes.\<close>

lemma split64:
  fixes a r :: nat
  assumes "r < 64"
  shows "(a * 64 + r) mod 64 = r" "(a * 64 + r) div 64 = a"
proof -
  show "(a * 64 + r) mod 64 = r" using assms by (simp only: mod_mult_self3 mod_less)
  have "(a * 64 + r) div 64 = a + r div 64" by (rule div_mult_self3) simp
  then show "(a * 64 + r) div 64 = a" using assms by simp
qed

lemma bom_arith:
  fixes p q r :: nat
  assumes "(p * 64 + q) * 64 + r = 65279" "q < 64" "r < 64"
  shows "p = 15 \<and> q = 59 \<and> r = 63"
proof -
  have "r = 65279 mod 64" using split64(1) [OF assms(3), of "p * 64 + q"] assms(1) by simp
  then have r: "r = 63" by simp
  have "p * 64 + q = 65279 div 64" using split64(2) [OF assms(3), of "p * 64 + q"] assms(1) by simp
  then have pq: "p * 64 + q = 1019" by simp
  have "q = 1019 mod 64" using split64(1) [OF assms(2), of p] pq by simp
  then have q: "q = 59" by simp
  have "p = 1019 div 64" using split64(2) [OF assms(2), of p] pq by simp
  then have "p = 15" by simp
  then show ?thesis using q r by simp
qed

lemma mod_window:
  fixes b m q :: nat
  assumes "q * m \<le> b" "b < q * m + m"
  shows "b mod m = b - q * m"
proof -
  obtain k where k: "b = q * m + k" using assms(1) le_Suc_ex by blast
  then have "k < m" using assms(2) by simp
  moreover have "b mod m = k mod m" unfolding k by (rule mod_mult_self3)
  ultimately show ?thesis using k by simp
qed


lemma utf8_ascii:
  "b \<le> 0x7F \<Longrightarrow> utf8_decode utf8_initial (b # bs) = b # utf8_decode utf8_initial bs"
  by (simp add: utf8_initial_def utf8_lead_def)

lemma utf8_step:
  assumes "0 < needed" "utf8_decode (cp, needed, lo, hi) bs = c # out"
  shows "c = 0xFFFD \<or>
         (\<exists>d bs'. bs = d # bs' \<and> lo \<le> d \<and> d \<le> hi \<and>
            (if needed = 1 then c = cp * 64 + d mod 64 \<and> out = utf8_decode utf8_initial bs'
             else utf8_decode (cp * 64 + d mod 64, needed - 1, 0x80, 0xBF) bs' = c # out))"
proof (cases bs)
  case Nil
  then show ?thesis using assms by simp
next
  case (Cons d bs')
  show ?thesis
  proof (cases "d < lo \<or> hi < d")
    case True
    then show ?thesis using assms Cons by (simp split: prod.splits)
  next
    case False
    then show ?thesis using assms Cons by (auto split: if_splits)
  qed
qed

lemma mod64_ge: "0x90 \<le> b \<Longrightarrow> b \<le> (0xBF::nat) \<Longrightarrow> 16 \<le> b mod 64"
  using mod_window [of 2 64 b] by auto

lemma utf8_pending_big:
  "pending (cp, needed, lower, upper) \<Longrightarrow> big (utf8_decode (cp, needed, lower, upper) bs)"
proof (induction bs arbitrary: cp needed lower upper)
  case Nil
  then show ?case by (auto simp: big_def pending_def)
next
  case (Cons b bs)
  show ?case
  proof (cases "b < lower \<or> upper < b")
    case True
    then show ?thesis using Cons.prems by (auto simp: big_def pending_def split: prod.splits)
  next
    case False
    then have r: "lower \<le> b" "b \<le> upper" by auto
    have u: "upper \<le> 0xBF" using Cons.prems by (simp add: pending_def)
    consider "needed = 1" "2 \<le> cp" | "needed = 2" "1 \<le> cp \<or> 0x90 \<le> lower"
      | "needed = 3" "1 \<le> cp \<or> 0x90 \<le> lower"
      using Cons.prems by (auto simp: pending_def)
    then show ?thesis
    proof cases
      case 1
      then show ?thesis using False by (simp add: big_def)
    next
      case 2
      have "2 \<le> cp * 64 + b mod 64"
        using 2(2) mod64_ge [of b] r u by auto
      then have "pending (cp * 64 + b mod 64, 1, 0x80, 0xBF)" by (simp add: pending_def)
      from Cons.IH [OF this] show ?thesis using False 2(1) by simp
    next
      case 3
      have "1 \<le> cp * 64 + b mod 64"
        using 3(2) mod64_ge [of b] r u by auto
      then have "pending (cp * 64 + b mod 64, 2, 0x80, 0xBF)" by (simp add: pending_def)
      from Cons.IH [OF this] show ?thesis using False 3(1) by simp
    qed
  qed
qed

lemma utf8_lead_nonascii:
  assumes "\<not> b \<le> 0x7F"
  shows "utf8_lead b = ([0xFFFD], utf8_initial) \<or> (\<exists>st. utf8_lead b = ([], st) \<and> pending st)"
proof (cases "0xC2 \<le> b \<and> b \<le> 0xDF")
  case True
  then have "2 \<le> b mod 32" using mod_window [of 6 32 b] by auto
  then have "pending (b mod 32, 1, 0x80, 0xBF)" by (simp add: pending_def)
  moreover have "utf8_lead b = ([], (b mod 32, 1, 0x80, 0xBF))"
    using assms True by (simp add: utf8_lead_def)
  ultimately show ?thesis by blast
next
  case c2: False
  show ?thesis
  proof (cases "0xE0 \<le> b \<and> b \<le> 0xEF")
    case True
    have "b \<noteq> 0xE0 \<Longrightarrow> 1 \<le> b mod 16" using True mod_window [of 14 16 b] by auto
    then have "pending (b mod 16, 2, (if b = 0xE0 then 0xA0 else 0x80),
                 (if b = 0xED then 0x9F else 0xBF))"
      by (simp add: pending_def)
    moreover have "utf8_lead b = ([], (b mod 16, 2, (if b = 0xE0 then 0xA0 else 0x80),
                 (if b = 0xED then 0x9F else 0xBF)))"
      using assms c2 True unfolding utf8_lead_def by (simp only: if_True if_False simp_thms)
    ultimately show ?thesis by blast
  next
    case e0: False
    show ?thesis
    proof (cases "0xF0 \<le> b \<and> b \<le> 0xF4")
      case True
      have "b \<noteq> 0xF0 \<Longrightarrow> 1 \<le> b mod 8" using True mod_window [of 30 8 b] by auto
      then have "pending (b mod 8, 3, (if b = 0xF0 then 0x90 else 0x80),
                   (if b = 0xF4 then 0x8F else 0xBF))"
        by (simp add: pending_def)
      moreover have "utf8_lead b = ([], (b mod 8, 3, (if b = 0xF0 then 0x90 else 0x80),
                   (if b = 0xF4 then 0x8F else 0xBF)))"
        using assms c2 e0 True unfolding utf8_lead_def by (simp only: if_True if_False simp_thms)
      ultimately show ?thesis by blast
    next
      case False
      then have "utf8_lead b = ([0xFFFD], utf8_initial)"
        using assms c2 e0 unfolding utf8_lead_def by (simp only: if_True if_False simp_thms)
      then show ?thesis by blast
    qed
  qed
qed

lemma utf8_initial_step:
  "utf8_decode utf8_initial (b # bs) = (case utf8_lead b of (out, st) \<Rightarrow> out @ utf8_decode st bs)"
  by (simp add: utf8_initial_def)

lemma utf8_nonascii_big:
  assumes "\<not> b \<le> 0x7F"
  shows "big (utf8_decode utf8_initial (b # bs))"
proof -
  from utf8_lead_nonascii [OF assms] consider "utf8_lead b = ([0xFFFD], utf8_initial)"
    | st where "utf8_lead b = ([], st)" "pending st" by blast
  then show ?thesis
  proof cases
    case 1
    then show ?thesis unfolding utf8_initial_step by (simp add: big_def)
  next
    case 2
    obtain cp needed lower upper where st: "st = (cp, needed, lower, upper)"
      by (cases st) auto
    have "big (utf8_decode st bs)" using utf8_pending_big 2(2) st by simp
    then show ?thesis unfolding utf8_initial_step using 2(1) by simp
  qed
qed


lemma utf8_bom_only:
  assumes D: "utf8_decode utf8_initial ns = 0xFEFF # rest"
  shows "\<exists>ns'. ns = 0xEF # 0xBB # 0xBF # ns' \<and> rest = utf8_decode utf8_initial ns'"
proof (cases ns)
  case Nil
  then show ?thesis using D by (simp add: utf8_initial_def)
next
  case (Cons b bs1)
  have L: "(case utf8_lead b of (out, st) \<Rightarrow> out @ utf8_decode st bs1) = 0xFEFF # rest"
    using D Cons utf8_initial_step by simp
  show ?thesis
  proof (cases "b \<le> 0x7F")
    case True
    then show ?thesis using D Cons utf8_ascii [of b bs1] by simp
  next
    case na: False
    show ?thesis
    proof (cases "0xC2 \<le> b \<and> b \<le> 0xDF")
      case True
      then have "utf8_lead b = ([], (b mod 32, 1, 0x80, 0xBF))"
        using na by (simp add: utf8_lead_def)
      then have "utf8_decode (b mod 32, 1, 0x80, 0xBF) bs1 = 0xFEFF # rest" using L by simp
      from utf8_step [OF _ this] obtain d where "0xFEFF = b mod 32 * 64 + d mod 64" by auto
      moreover have "b mod 32 < 32" "d mod 64 < 64" by simp_all
      ultimately show ?thesis by linarith
    next
      case c2: False
      show ?thesis
      proof (cases "0xE0 \<le> b \<and> b \<le> 0xEF")
        case True
        define lo :: nat where "lo = (if b = 0xE0 then 0xA0 else 0x80)"
        define hi :: nat where "hi = (if b = 0xED then 0x9F else 0xBF)"
        have bounds: "0x80 \<le> lo" "hi \<le> 0xBF" by (simp_all add: lo_def hi_def)
        have "utf8_lead b = ([], (b mod 16, 2, lo, hi))"
          using na c2 True unfolding utf8_lead_def lo_def hi_def
          by (simp only: if_True if_False simp_thms)
        then have "utf8_decode (b mod 16, 2, lo, hi) bs1 = 0xFEFF # rest" using L by simp
        from utf8_step [OF _ this] obtain d bs2 where d: "bs1 = d # bs2" "lo \<le> d" "d \<le> hi"
          "utf8_decode (b mod 16 * 64 + d mod 64, 1, 0x80, 0xBF) bs2 = 0xFEFF # rest"
          by auto
        from utf8_step [OF _ d(4)] obtain e bs3 where e: "bs2 = e # bs3" "0x80 \<le> e" "e \<le> 0xBF"
          "0xFEFF = (b mod 16 * 64 + d mod 64) * 64 + e mod 64"
          "rest = utf8_decode utf8_initial bs3"
          by auto
        have "b mod 16 = 15 \<and> d mod 64 = 59 \<and> e mod 64 = 63"
          using bom_arith [of "b mod 16" "d mod 64" "e mod 64"] e(4) by simp
        moreover have "b mod 16 = b - 224" using True mod_window [of 14 16 b] by auto
        moreover have "d mod 64 = d - 128" using d(2,3) bounds mod_window [of 2 64 d] by auto
        moreover have "e mod 64 = e - 128" using e(2,3) mod_window [of 2 64 e] by auto
        ultimately have "b = 0xEF" "d = 0xBB" "e = 0xBF"
          using True d(2,3) bounds e(2,3) by auto
        then show ?thesis using Cons d(1) e(1,5) by simp
      next
        case e0: False
        show ?thesis
        proof (cases "0xF0 \<le> b \<and> b \<le> 0xF4")
          case True
          define lo :: nat where "lo = (if b = 0xF0 then 0x90 else 0x80)"
          define hi :: nat where "hi = (if b = 0xF4 then 0x8F else 0xBF)"
          have bounds: "0x80 \<le> lo" "hi \<le> 0xBF" by (simp_all add: lo_def hi_def)
          have "utf8_lead b = ([], (b mod 8, 3, lo, hi))"
            using na c2 e0 True unfolding utf8_lead_def lo_def hi_def
            by (simp only: if_True if_False simp_thms)
          then have "utf8_decode (b mod 8, 3, lo, hi) bs1 = 0xFEFF # rest" using L by simp
          from utf8_step [OF _ this] obtain d bs2 where d: "bs1 = d # bs2" "lo \<le> d" "d \<le> hi"
            "utf8_decode (b mod 8 * 64 + d mod 64, 2, 0x80, 0xBF) bs2 = 0xFEFF # rest"
            by auto
          from utf8_step [OF _ d(4)] obtain e bs3 where e: "bs2 = e # bs3"
            "utf8_decode ((b mod 8 * 64 + d mod 64) * 64 + e mod 64, 1, 0x80, 0xBF) bs3
               = 0xFEFF # rest"
            by auto
          from utf8_step [OF _ e(2)] obtain f where
            f: "0xFEFF = ((b mod 8 * 64 + d mod 64) * 64 + e mod 64) * 64 + f mod 64"
            by auto
          have "(b mod 8 * 64 + d mod 64) * 64 + e mod 64 = 65279 div 64"
            using split64(2) [of "f mod 64" "(b mod 8 * 64 + d mod 64) * 64 + e mod 64"] f
            by simp
          then have "(b mod 8 * 64 + d mod 64) * 64 + e mod 64 = 1019" by simp
          then have "b mod 8 * 64 + d mod 64 = 1019 div 64"
            using split64(2) [of "e mod 64" "b mod 8 * 64 + d mod 64"] by simp
          then have s: "b mod 8 * 64 + d mod 64 = 15" by simp
          then have "b mod 8 = 0" by simp
          moreover have "b mod 8 = b - 240" using True mod_window [of 30 8 b] by auto
          ultimately have "b = 0xF0" using True by simp
          then have "0x90 \<le> d" using d(2) by (simp add: lo_def)
          then have "16 \<le> d mod 64" using mod64_ge [of d] d(3) bounds by simp
          then show ?thesis using s by simp
        next
          case False
          then have "utf8_lead b = ([0xFFFD], utf8_initial)"
            using na c2 e0 unfolding utf8_lead_def by (simp only: if_True if_False simp_thms)
          then show ?thesis using L by simp
        qed
      qed
    qed
  qed
qed


lemma units_big:
  assumes "big cps" "p < 0x80"
  shows "\<not> startsWith (units cps) (p # ps)"
proof (cases cps)
  case Nil
  then show ?thesis by (simp add: units_def startsWith_def)
next
  case (Cons c cs)
  then have c: "0x80 \<le> c" using assms(1) by (simp add: big_def)
  have "\<exists>u us. utf16 c = u # us \<and> 0x80 \<le> u" using c by (auto simp: utf16_def)
  then obtain u us where "utf16 c = u # us" "0x80 \<le> u" by blast
  then show ?thesis using Cons assms(2) by (auto simp: units_def startsWith_def)
qed

lemma ascii_prefix:
  assumes "p < 0x80" "startsWith (units (utf8_decode utf8_initial ns)) (p # ps)"
  shows "\<exists>ns'. ns = p # ns' \<and> startsWith (units (utf8_decode utf8_initial ns')) ps"
proof (cases ns)
  case Nil
  then show ?thesis using assms(2) by (simp add: utf8_initial_def units_def startsWith_def)
next
  case (Cons b ns')
  show ?thesis
  proof (cases "b \<le> 0x7F")
    case True
    then have "utf8_decode utf8_initial ns = b # utf8_decode utf8_initial ns'"
      using Cons utf8_ascii by simp
    moreover have "utf16 b = [b]" using True by (simp add: utf16_def)
    ultimately have "units (utf8_decode utf8_initial ns) = b # units (utf8_decode utf8_initial ns')"
      by (simp add: units_def)
    then show ?thesis using assms(2) Cons by (simp add: startsWith_def)
  next
    case False
    then have "big (utf8_decode utf8_initial ns)" using Cons utf8_nonascii_big by simp
    then show ?thesis using units_big assms by blast
  qed
qed

lemma magic_prefix:
  assumes "startsWith (units (utf8_decode utf8_initial ns)) PDF_magic"
  shows "\<exists>r. ns = 0x25 # 0x50 # 0x44 # 0x46 # r"
proof -
  from assms have "startsWith (units (utf8_decode utf8_initial ns)) (0x25 # [0x50, 0x44, 0x46])"
    by (simp add: PDF_magic_def)
  from ascii_prefix [OF _ this] obtain n1 where n1: "ns = 0x25 # n1"
    "startsWith (units (utf8_decode utf8_initial n1)) (0x50 # [0x44, 0x46])" by auto
  from ascii_prefix [OF _ n1(2)] obtain n2 where n2: "n1 = 0x50 # n2"
    "startsWith (units (utf8_decode utf8_initial n2)) (0x44 # [0x46])" by auto
  from ascii_prefix [OF _ n2(2)] obtain n3 where n3: "n2 = 0x44 # n3"
    "startsWith (units (utf8_decode utf8_initial n3)) (0x46 # [])" by auto
  from ascii_prefix [OF _ n3(2)] obtain n4 where n4: "n3 = 0x46 # n4" by auto
  show ?thesis using n1(1) n2(1) n3(1) n4 by simp
qed

lemma magic_decoded:
  "startsWith (units (utf8_decode utf8_initial (0x25 # 0x50 # 0x44 # 0x46 # r))) PDF_magic"
  by (simp add: utf8_ascii units_def utf16_def startsWith_def PDF_magic_def)

lemma bom_decoded:
  "utf8_decode utf8_initial (0xEF # 0xBB # 0xBF # r) = 0xFEFF # utf8_decode utf8_initial r"
  by (simp add: utf8_initial_def utf8_lead_def)

lemma header_codes:
  "startsWith (units (dropBOM (utf8_decode utf8_initial ns))) PDF_magic \<longleftrightarrow>
     (\<exists>r. ns = 0x25 # 0x50 # 0x44 # 0x46 # r)
     \<or> (\<exists>r. ns = 0xEF # 0xBB # 0xBF # 0x25 # 0x50 # 0x44 # 0x46 # r)"
proof
  assume S: "startsWith (units (dropBOM (utf8_decode utf8_initial ns))) PDF_magic"
  show "(\<exists>r. ns = 0x25 # 0x50 # 0x44 # 0x46 # r)
     \<or> (\<exists>r. ns = 0xEF # 0xBB # 0xBF # 0x25 # 0x50 # 0x44 # 0x46 # r)"
  proof (cases "utf8_decode utf8_initial ns")
    case Nil
    then show ?thesis using S by (simp add: dropBOM_def units_def startsWith_def PDF_magic_def)
  next
    case (Cons c cs)
    show ?thesis
    proof (cases "c = 0xFEFF")
      case True
      from utf8_bom_only [of ns cs] Cons True obtain ns' where
        ns': "ns = 0xEF # 0xBB # 0xBF # ns'" "cs = utf8_decode utf8_initial ns'" by auto
      have "dropBOM (utf8_decode utf8_initial ns) = cs" using Cons True by (simp add: dropBOM_def)
      then have "startsWith (units (utf8_decode utf8_initial ns')) PDF_magic" using S ns'(2) by simp
      from magic_prefix [OF this] show ?thesis using ns'(1) by auto
    next
      case False
      then have "dropBOM (utf8_decode utf8_initial ns) = utf8_decode utf8_initial ns"
        using Cons by (simp add: dropBOM_def)
      then have "startsWith (units (utf8_decode utf8_initial ns)) PDF_magic" using S by simp
      from magic_prefix [OF this] show ?thesis by auto
    qed
  qed
next
  assume "(\<exists>r. ns = 0x25 # 0x50 # 0x44 # 0x46 # r)
     \<or> (\<exists>r. ns = 0xEF # 0xBB # 0xBF # 0x25 # 0x50 # 0x44 # 0x46 # r)"
  then consider r where "ns = 0x25 # 0x50 # 0x44 # 0x46 # r"
    | r where "ns = 0xEF # 0xBB # 0xBF # 0x25 # 0x50 # 0x44 # 0x46 # r" by blast
  then show "startsWith (units (dropBOM (utf8_decode utf8_initial ns))) PDF_magic"
  proof cases
    case 1
    have "dropBOM (utf8_decode utf8_initial ns) = utf8_decode utf8_initial ns"
      unfolding 1 by (simp add: utf8_ascii dropBOM_def)
    then show ?thesis using magic_decoded [of r] 1 by simp
  next
    case 2
    have "dropBOM (utf8_decode utf8_initial ns)
            = utf8_decode utf8_initial (0x25 # 0x50 # 0x44 # 0x46 # r)"
      unfolding 2 bom_decoded by (simp add: dropBOM_def)
    then show ?thesis using magic_decoded [of r] by simp
  qed
qed

lemma map_unat_append:
  "map unat (ws :: bytes) = map unat (vs :: bytes) @ r \<longleftrightarrow>
     (\<exists>ws'. ws = vs @ ws' \<and> map unat ws' = r)"
proof (induction vs arbitrary: ws)
  case Nil
  then show ?case by simp
next
  case (Cons v vs)
  show ?case
  proof (cases ws)
    case Nil
    then show ?thesis by simp
  next
    case (Cons w ws2)
    then show ?thesis using Cons.IH [of ws2] by (auto simp: word_unat_eq_iff)
  qed
qed

lemma take_prefix_iff:
  assumes "length vs \<le> n"
  shows "(\<exists>ws'. take n xs = vs @ ws') \<longleftrightarrow> take (length vs) xs = vs"
proof
  assume "\<exists>ws'. take n xs = vs @ ws'"
  then obtain ws' where w: "take n xs = vs @ ws'" by blast
  have "take (length vs) xs = take (length vs) (take n xs)" using assms by (simp add: min_def)
  then show "take (length vs) xs = vs" using w by simp
next
  assume t: "take (length vs) xs = vs"
  have "take n xs = take (length vs + (n - length vs)) xs" using assms by simp
  also have "\<dots> = take (length vs) xs @ take (n - length vs) (drop (length vs) xs)"
    by (rule take_add)
  finally show "\<exists>ws'. take n xs = vs @ ws'" using t by auto
qed

lemma hasPdfHeader_iff:
  "hasPdfHeader result \<longleftrightarrow>
     take 4 result = PDF_signature \<or> take 7 result = BOM_bytes @ PDF_signature"
proof -
  let ?ns = "map unat (take 8 result)"
  have H: "hasPdfHeader result \<longleftrightarrow>
     (\<exists>r. ?ns = 0x25 # 0x50 # 0x44 # 0x46 # r)
     \<or> (\<exists>r. ?ns = 0xEF # 0xBB # 0xBF # 0x25 # 0x50 # 0x44 # 0x46 # r)"
    unfolding hasPdfHeader_def TextDecoder_decode_def units_def [symmetric] by (rule header_codes)
  have a: "\<And>r. 0x25 # 0x50 # 0x44 # 0x46 # r = map unat PDF_signature @ r"
    by (simp add: PDF_signature_def)
  have b: "\<And>r. 0xEF # 0xBB # 0xBF # 0x25 # 0x50 # 0x44 # 0x46 # r
             = map unat (BOM_bytes @ PDF_signature) @ r"
    by (simp add: PDF_signature_def BOM_bytes_def)
  have l4: "length PDF_signature = 4" by (simp add: PDF_signature_def)
  have l7: "length (BOM_bytes @ PDF_signature) = 7" by (simp add: PDF_signature_def BOM_bytes_def)
  have A: "(\<exists>r. ?ns = 0x25 # 0x50 # 0x44 # 0x46 # r) \<longleftrightarrow> take 4 result = PDF_signature"
  proof -
    have "(\<exists>ws'. take 8 result = PDF_signature @ ws') \<longleftrightarrow> take 4 result = PDF_signature"
      using take_prefix_iff [of PDF_signature 8 result] l4 by simp
    then show ?thesis unfolding a map_unat_append by auto
  qed
  have B: "(\<exists>r. ?ns = 0xEF # 0xBB # 0xBF # 0x25 # 0x50 # 0x44 # 0x46 # r)
             \<longleftrightarrow> take 7 result = BOM_bytes @ PDF_signature"
  proof -
    have "(\<exists>ws'. take 8 result = (BOM_bytes @ PDF_signature) @ ws')
            \<longleftrightarrow> take 7 result = BOM_bytes @ PDF_signature"
      using take_prefix_iff [of "BOM_bytes @ PDF_signature" 8 result] l7 by simp
    then show ?thesis unfolding b map_unat_append by auto
  qed
  show ?thesis using H A B by simp
qed

section \<open>The sample buffers\<close>

lemma goodPdf_facts:
  "length goodPdf = 1000" "take 4 goodPdf = PDF_signature" "goodPdf \<noteq> garbage"
  "goodPdf \<noteq> bomPdf"
  by (simp_all add: goodPdf_def bomPdf_def PDF_signature_def BOM_bytes_def garbage_def)

lemma bomPdf_facts:
  "length bomPdf = 1000" "take 7 bomPdf = BOM_bytes @ PDF_signature"
  "take 4 bomPdf \<noteq> PDF_signature" "bomPdf \<noteq> garbage"
  by (simp_all add: bomPdf_def PDF_signature_def BOM_bytes_def garbage_def)

lemma garbage_facts:
  "length garbage = 2" "take 4 garbage \<noteq> PDF_signature"
  "take 7 garbage \<noteq> BOM_bytes @ PDF_signature"
  by (simp_all add: garbage_def PDF_signature_def BOM_bytes_def)

lemma sample_headers: "hasPdfHeader goodPdf" "hasPdfHeader bomPdf" "\<not> hasPdfHeader garbage"
proof -
  show "hasPdfHeader goodPdf" "hasPdfHeader bomPdf"
    by (simp_all add: hasPdfHeader_iff goodPdf_facts bomPdf_facts)
  show "\<not> hasPdfHeader garbage"
    by (simp add: hasPdfHeader_iff garbage_def PDF_signature_def BOM_bytes_def)
qed

lemma pickyLib_load:
  "lib_load pickyLib opts goodPdf = Inr onePage"
  "lib_load pickyLib opts bomPdf = Inr onePage"
  "lib_load pickyLib opts garbage = Inl (JsError ''Failed to parse PDF document'')"
  using goodPdf_facts(3) bomPdf_facts(4) by (simp_all add: pickyLib_def)

section \<open>The checks on a result and the loop over the attempts\<close>

lemma validateResult_accepted:
  "validateResult lib name result = None \<longleftrightarrow> accepted lib (Inr result)"
  by (auto simp: validateResult_def accepted_def split: sum.splits)

lemma tryAttempts_accept:
  assumes "accepted lib outcome"
  shows "tryAttempts lib ((name, outcome) # rest)
           = (Some (projr outcome), [Trying name, Succeeded name])"
proof (cases outcome)
  case (Inl e)
  then show ?thesis using assms by (simp add: accepted_def)
next
  case (Inr result)
  then have "validateResult lib name result = None"
    using assms validateResult_accepted by simp
  then show ?thesis using Inr by simp
qed

lemma tryAttempts_reject:
  assumes "\<not> accepted lib outcome"
  shows "fst (tryAttempts lib ((name, outcome) # rest)) = fst (tryAttempts lib rest)"
    and "triedNames (snd (tryAttempts lib ((name, outcome) # rest)))
           = name # triedNames (snd (tryAttempts lib rest))"
proof -
  have "fst (tryAttempts lib ((name, outcome) # rest)) = fst (tryAttempts lib rest)
        \<and> triedNames (snd (tryAttempts lib ((name, outcome) # rest)))
           = name # triedNames (snd (tryAttempts lib rest))"
  proof (cases outcome)
    case (Inl e)
    then show ?thesis by (simp split: prod.splits)
  next
    case (Inr result)
    then have "validateResult lib name result \<noteq> None"
      using assms validateResult_accepted by simp
    then obtain rejection where r: "validateResult lib name result = Some rejection" by auto
    then have "rejection = Suspicious name (length result) \<or> rejection = InvalidHeader name
               \<or> rejection = CannotLoadBack name"
      by (auto simp: validateResult_def split: if_splits sum.splits)
    then show ?thesis using Inr r by (auto split: prod.splits)
  qed
  then show "fst (tryAttempts lib ((name, outcome) # rest)) = fst (tryAttempts lib rest)"
    and "triedNames (snd (tryAttempts lib ((name, outcome) # rest)))
           = name # triedNames (snd (tryAttempts lib rest))"
    by simp_all
qed

lemma accepted_Inr: "accepted lib outcome \<Longrightarrow> Inr (projr outcome) = outcome"
  by (cases outcome) (simp_all add: accepted_def)

text \<open>
  C4, as the code has it. The result of an attempt is accepted exactly when it has at
  least 1000 bytes, its first eight bytes decoded as UTF-8 start with \<^verbatim>\<open>%PDF\<close>, which is
  the case when the buffer starts with the bytes \<^verbatim>\<open>%PDF\<close> or with a byte order mark
  followed by them, and the default load of the buffer does not throw. An accepted
  result ends the loop and is returned; after a rejected one the loop goes on with the
  remaining attempts.
\<close>

theorem validateResult_iff:
  "(validateResult lib name result = None \<longleftrightarrow>
      1000 \<le> length result
      \<and> (take 4 result = PDF_signature \<or> take 7 result = BOM_bytes @ PDF_signature)
      \<and> (\<exists>doc. lib_load lib default_load result = Inr doc))
   \<and> (validateResult lib name result = None \<longrightarrow>
        tryAttempts lib ((name, Inr result) # rest)
          = (Some result, [Trying name, Succeeded name]))
   \<and> (validateResult lib name result \<noteq> None \<longrightarrow>
        fst (tryAttempts lib ((name, Inr result) # rest)) = fst (tryAttempts lib rest))"
proof (intro conjI impI)
  show "validateResult lib name result = None \<longleftrightarrow>
      1000 \<le> length result
      \<and> (take 4 result = PDF_signature \<or> take 7 result = BOM_bytes @ PDF_signature)
      \<and> (\<exists>doc. lib_load lib default_load result = Inr doc)"
    unfolding validateResult_def hasPdfHeader_iff by (auto split: sum.splits)
next
  assume "validateResult lib name result = None"
  then show "tryAttempts lib ((name, Inr result) # rest)
          = (Some result, [Trying name, Succeeded name])"
    by simp
next
  assume "validateResult lib name result \<noteq> None"
  then have "\<not> accepted lib (Inr result)" using validateResult_accepted by simp
  from tryAttempts_reject(1) [OF this]
  show "fst (tryAttempts lib ((name, Inr result) # rest)) = fst (tryAttempts lib rest)" .
qed

theorem validateResult_iff_witness:
  "validateResult pickyLib ''Screenshot approach'' goodPdf = None
   \<and> tryAttempts pickyLib [(''Screenshot approach'', Inr goodPdf)]
       = (Some goodPdf, [Trying ''Screenshot approach'', Succeeded ''Screenshot approach''])
   \<and> validateResult pickyLib ''Screenshot approach'' garbage \<noteq> None
   \<and> fst (tryAttempts pickyLib [(''Screenshot approach'', Inr garbage)]) = None"
  using validateResult_iff [of pickyLib "''Screenshot approach''" goodPdf "[]"]
    validateResult_iff [of pickyLib "''Screenshot approach''" garbage "[]"]
  by (simp add: goodPdf_facts garbage_facts pickyLib_load)

text \<open>
  Against C4 as stated: a buffer of 1000 bytes that starts with a byte order mark, not
  with \<^verbatim>\<open>%PDF\<close>, and that the library loads, is accepted.
\<close>

theorem bom_buffer_accepted:
  "validateResult pickyLib ''Primary approach'' bomPdf = None
   \<and> take 4 bomPdf \<noteq> PDF_signature
   \<and> fst (tryAttempts pickyLib [(''Primary approach'', Inr bomPdf)]) = Some bomPdf"
  by (simp add: validateResult_def sample_headers bomPdf_facts pickyLib_load)

section \<open>\<^verbatim>\<open>redactPDF\<close>: which result is returned\<close>

lemma redactPDF_attempts:
  assumes "arrayBuffer pdfFile = Inr originalPdfBytes" "areas \<noteq> []"
  shows "redactPDF lib js pdfFile areas False =
           (case tryAttempts lib (attempts lib js pdfFile areas) of
              (Some result, lg) \<Rightarrow> (Inr result, lg)
            | (None, lg) \<Rightarrow> (Inr originalPdfBytes, lg @ [AllFailed]))"
  using assms by (simp add: redactPDF_def)

lemma redactPDF_copy:
  assumes "copyOnly \<or> areas = []"
  shows "redactPDF lib js pdfFile areas copyOnly =
           (case arrayBuffer pdfFile of
              Inl readError \<Rightarrow> (Inl readError, [ExactCopy])
            | Inr pdfBytes \<Rightarrow> (Inr pdfBytes, [ExactCopy]))"
  using assms by (auto simp: redactPDF_def)

lemma triedNames_append_AllFailed: "triedNames (lg @ [AllFailed]) = triedNames lg"
  by (induction lg rule: triedNames.induct) simp_all

text \<open>The loop on the three attempts of \<open>redactPDF\<close>.\<close>

lemma tryAttempts_three:
  "fst (tryAttempts lib [(n1, o1), (n2, o2), (n3, o3)]) =
     (if accepted lib o1 then Some (projr o1)
      else if accepted lib o2 then Some (projr o2)
      else if accepted lib o3 then Some (projr o3) else None)"
  "triedNames (snd (tryAttempts lib [(n1, o1), (n2, o2), (n3, o3)])) =
     (if accepted lib o1 then [n1] else if accepted lib o2 then [n1, n2] else [n1, n2, n3])"
proof -
  have e: "tryAttempts lib [] = (None, [])" by simp
  have t3: "fst (tryAttempts lib [(n3, o3)]) = (if accepted lib o3 then Some (projr o3) else None)"
    "triedNames (snd (tryAttempts lib [(n3, o3)])) = [n3]"
    using tryAttempts_accept [of lib o3 n3 "[]"] tryAttempts_reject [of lib o3 n3 "[]"]
    by (cases "accepted lib o3"; simp)+
  have t2: "fst (tryAttempts lib [(n2, o2), (n3, o3)])
              = (if accepted lib o2 then Some (projr o2)
                 else if accepted lib o3 then Some (projr o3) else None)"
    "triedNames (snd (tryAttempts lib [(n2, o2), (n3, o3)]))
              = (if accepted lib o2 then [n2] else [n2, n3])"
    using tryAttempts_accept [of lib o2 n2 "[(n3, o3)]"]
      tryAttempts_reject [of lib o2 n2 "[(n3, o3)]"] t3
    by (cases "accepted lib o2"; simp)+
  show "fst (tryAttempts lib [(n1, o1), (n2, o2), (n3, o3)]) =
     (if accepted lib o1 then Some (projr o1)
      else if accepted lib o2 then Some (projr o2)
      else if accepted lib o3 then Some (projr o3) else None)"
    using tryAttempts_accept [of lib o1 n1 "[(n2, o2), (n3, o3)]"]
      tryAttempts_reject [of lib o1 n1 "[(n2, o2), (n3, o3)]"] t2
    by (cases "accepted lib o1"; simp)
  show "triedNames (snd (tryAttempts lib [(n1, o1), (n2, o2), (n3, o3)])) =
     (if accepted lib o1 then [n1] else if accepted lib o2 then [n1, n2] else [n1, n2, n3])"
    using tryAttempts_accept [of lib o1 n1 "[(n2, o2), (n3, o3)]"]
      tryAttempts_reject [of lib o1 n1 "[(n2, o2), (n3, o3)]"] t2
    by (cases "accepted lib o1"; simp)
qed

text \<open>The result and the attempts started, by which results are accepted.\<close>

lemma redactPDF_outcome:
  assumes "arrayBuffer pdfFile = Inr originalPdfBytes" and "areas \<noteq> []"
  shows "fst (redactPDF lib js pdfFile areas False) =
           (if accepted lib (screenshotBasedRedaction lib js pdfFile areas)
            then screenshotBasedRedaction lib js pdfFile areas
            else if accepted lib (processRedactions lib pdfFile areas)
            then processRedactions lib pdfFile areas
            else if accepted lib (canvasRedaction lib js pdfFile areas)
            then canvasRedaction lib js pdfFile areas
            else Inr originalPdfBytes)
       \<and> triedNames (snd (redactPDF lib js pdfFile areas False)) =
           (if accepted lib (screenshotBasedRedaction lib js pdfFile areas)
            then [''Screenshot approach'']
            else if accepted lib (processRedactions lib pdfFile areas)
            then [''Screenshot approach'', ''Primary approach'']
            else [''Screenshot approach'', ''Primary approach'', ''Canvas approach''])"
proof -
  let ?S = "screenshotBasedRedaction lib js pdfFile areas"
  let ?P = "processRedactions lib pdfFile areas"
  let ?C = "canvasRedaction lib js pdfFile areas"
  let ?T = "tryAttempts lib (attempts lib js pdfFile areas)"
  have f: "fst ?T = (if accepted lib ?S then Some (projr ?S)
      else if accepted lib ?P then Some (projr ?P)
      else if accepted lib ?C then Some (projr ?C) else None)"
    unfolding attempts_def by (rule tryAttempts_three(1))
  have n: "triedNames (snd ?T) = (if accepted lib ?S then [''Screenshot approach'']
      else if accepted lib ?P then [''Screenshot approach'', ''Primary approach'']
      else [''Screenshot approach'', ''Primary approach'', ''Canvas approach''])"
    unfolding attempts_def by (rule tryAttempts_three(2))
  have r: "redactPDF lib js pdfFile areas False =
           (case ?T of (Some result, lg) \<Rightarrow> (Inr result, lg)
            | (None, lg) \<Rightarrow> (Inr originalPdfBytes, lg @ [AllFailed]))"
    using assms by (rule redactPDF_attempts)
  obtain res lg where T: "?T = (res, lg)" by (cases ?T)
  have 1: "fst (redactPDF lib js pdfFile areas False)
             = (case res of Some result \<Rightarrow> Inr result | None \<Rightarrow> Inr originalPdfBytes)"
    unfolding r T by (simp split: option.splits)
  have 2: "triedNames (snd (redactPDF lib js pdfFile areas False)) = triedNames lg"
    unfolding r T by (simp split: option.splits add: triedNames_append_AllFailed)
  have 3: "res = fst ?T" "lg = snd ?T" using T by simp_all
  show ?thesis
    unfolding 1 2 3 f n using accepted_Inr [of lib ?S] accepted_Inr [of lib ?P]
      accepted_Inr [of lib ?C]
    by simp
qed


text \<open>What the strategies give on the sample inputs.\<close>

lemma garbageFile_read: "arrayBuffer garbageFile = Inr garbage"
  by (simp add: arrayBuffer_def garbageFile_def)

lemma area1_nonempty: "[area1] \<noteq> []" "length [area1] \<noteq> 0"
  by simp_all

lemma processRedactions_garbage: "processRedactions pickyLib garbageFile [area1] = Inr garbage"
  by (simp add: processRedactions_def garbageFile_read pickyLib_load)


lemma noJs_strategies:
  "screenshotBasedRedaction lib noJs pdfFile areas
     = Inl (JsError ''Failed to fetch dynamically imported module'')"
  "canvasRedaction lib noJs pdfFile areas
     = Inl (JsError ''Failed to fetch dynamically imported module'')"
  by (simp_all add: screenshotBasedRedaction_def canvasRedaction_def noJs_def)

lemma canvasOnlyJs_strategies:
  "screenshotBasedRedaction pickyLib canvasOnlyJs garbageFile [area1]
     = Inl (JsError ''Invalid PDF structure'')"
  "canvasRedaction pickyLib canvasOnlyJs garbageFile [area1] = Inr goodPdf"
proof -
  show "screenshotBasedRedaction pickyLib canvasOnlyJs garbageFile [area1]
     = Inl (JsError ''Invalid PDF structure'')"
    by (simp add: screenshotBasedRedaction_def canvasOnlyJs_def noJs_def garbageFile_read)
  have s: "save pickyLib default_save create = Inr goodPdf"
    by (simp add: save_def pickyLib_def)
  show "canvasRedaction pickyLib canvasOnlyJs garbageFile [area1] = Inr goodPdf"
    by (simp add: canvasRedaction_def canvasOnlyJs_def noJs_def garbageFile_read s
        goodPdf_facts)
qed








text \<open>
  C1, as the code has it. For every file that can be read, every list of areas and either
  value of the flag, \<open>redactPDF\<close> resolves to a buffer that is either the file's bytes
  unchanged or the accepted result of an attempt: at least 1000 bytes, starting with
  \<^verbatim>\<open>%PDF\<close> (possibly after a byte order mark), and loadable again. So the result of a
  non-empty file is never empty.
\<close>

theorem redactPDF_result:
  assumes "arrayBuffer pdfFile = Inr originalPdfBytes"
  shows "\<exists>result. fst (redactPDF lib js pdfFile areas copyOnly) = Inr result
           \<and> (result = originalPdfBytes
                \<or> (1000 \<le> length result
                    \<and> (take 4 result = PDF_signature
                         \<or> take 7 result = BOM_bytes @ PDF_signature)
                    \<and> (\<exists>doc. lib_load lib default_load result = Inr doc)))
           \<and> (originalPdfBytes \<noteq> [] \<longrightarrow> result \<noteq> [])"
proof -
  have ok: "\<And>outcome. accepted lib outcome \<Longrightarrow>
      \<exists>result. outcome = Inr result \<and> 1000 \<le> length result
        \<and> (take 4 result = PDF_signature \<or> take 7 result = BOM_bytes @ PDF_signature)
        \<and> (\<exists>doc. lib_load lib default_load result = Inr doc)"
    unfolding accepted_def hasPdfHeader_iff by (auto split: sum.splits)
  have "\<exists>result. fst (redactPDF lib js pdfFile areas copyOnly) = Inr result
           \<and> (result = originalPdfBytes
                \<or> (1000 \<le> length result
                    \<and> (take 4 result = PDF_signature
                         \<or> take 7 result = BOM_bytes @ PDF_signature)
                    \<and> (\<exists>doc. lib_load lib default_load result = Inr doc)))"
  proof (cases "copyOnly \<or> areas = []")
    case True
    then show ?thesis using assms redactPDF_copy [of copyOnly areas] by simp
  next
    case False
    then have c: "copyOnly = False" and a: "areas \<noteq> []" by simp_all
    let ?S = "screenshotBasedRedaction lib js pdfFile areas"
    let ?P = "processRedactions lib pdfFile areas"
    let ?C = "canvasRedaction lib js pdfFile areas"
    from redactPDF_outcome [OF assms a, of lib js]
    consider "accepted lib ?S" "fst (redactPDF lib js pdfFile areas False) = ?S"
      | "accepted lib ?P" "fst (redactPDF lib js pdfFile areas False) = ?P"
      | "accepted lib ?C" "fst (redactPDF lib js pdfFile areas False) = ?C"
      | "fst (redactPDF lib js pdfFile areas False) = Inr originalPdfBytes"
      by (auto split: if_splits)
    then show ?thesis
    proof cases
      case 1
      then show ?thesis using ok [of ?S] c by auto
    next
      case 2
      then show ?thesis using ok [of ?P] c by auto
    next
      case 3
      then show ?thesis using ok [of ?C] c by auto
    next
      case 4
      then show ?thesis using c by simp
    qed
  qed
  then obtain result where r: "fst (redactPDF lib js pdfFile areas copyOnly) = Inr result"
    "result = originalPdfBytes
       \<or> (1000 \<le> length result
           \<and> (take 4 result = PDF_signature \<or> take 7 result = BOM_bytes @ PDF_signature)
           \<and> (\<exists>doc. lib_load lib default_load result = Inr doc))"
    by blast
  have "originalPdfBytes \<noteq> [] \<longrightarrow> result \<noteq> []" using r(2) by auto
  then show ?thesis using r by blast
qed

theorem redactPDF_result_witness:
  "fst (redactPDF pickyLib canvasOnlyJs garbageFile [area1] False) = Inr goodPdf
   \<and> 1000 \<le> length goodPdf \<and> take 4 goodPdf = PDF_signature
   \<and> lib_load pickyLib default_load goodPdf = Inr onePage
   \<and> garbage \<noteq> [] \<and> goodPdf \<noteq> []"
proof -
  have "fst (redactPDF pickyLib canvasOnlyJs garbageFile [area1] False) = Inr goodPdf"
    unfolding redactPDF_attempts [OF garbageFile_read area1_nonempty(1)] attempts_def
    by (simp add: canvasOnlyJs_strategies processRedactions_garbage validateResult_def
        goodPdf_facts garbage_facts sample_headers pickyLib_load)
  moreover have "garbage \<noteq> []" "goodPdf \<noteq> []"
    by (simp_all add: garbage_def goodPdf_def PDF_signature_def)
  ultimately show ?thesis
    using redactPDF_result [OF garbageFile_read, of pickyLib canvasOnlyJs "[area1]" False]
    by (simp add: goodPdf_facts pickyLib_load)
qed

text \<open>
  Against C1 as stated: for a file that cannot be read \<open>redactPDF\<close> rejects; and for a
  buffer that is no PDF, when every attempt fails, it resolves to that buffer, which
  does not begin with \<^verbatim>\<open>%PDF\<close> and which the loader does not open.
\<close>

theorem redactPDF_not_always_a_pdf:
  "fst (redactPDF pickyLib noJs unreadableFile [area1] False) = Inl (JsError ''The requested file could not be read, typically due to permission problems that have occurred after a reference to a file was acquired.'')
   \<and> fst (redactPDF pickyLib noJs garbageFile [area1] False) = Inr garbage
   \<and> take 4 garbage \<noteq> PDF_signature
   \<and> lib_load pickyLib default_load garbage = Inl (JsError ''Failed to parse PDF document'')"
proof -
  have "fst (redactPDF pickyLib noJs garbageFile [area1] False) = Inr garbage"
    unfolding redactPDF_attempts [OF garbageFile_read area1_nonempty(1)] attempts_def
    by (simp add: noJs_strategies processRedactions_garbage validateResult_def garbage_facts)
  moreover have "fst (redactPDF pickyLib noJs unreadableFile [area1] False) = Inl (JsError ''The requested file could not be read, typically due to permission problems that have occurred after a reference to a file was acquired.'')"
    by (simp add: redactPDF_def arrayBuffer_def unreadableFile_def)
  ultimately show ?thesis
    using garbage_facts(2) pickyLib_load(3) [of default_load] by blast
qed

section \<open>\<^verbatim>\<open>redactPDF\<close>: the exact copy\<close>







section \<open>Strings\<close>

lemma startsWith_iff: "startsWith s p \<longleftrightarrow> (\<exists>post. s = p @ post)"
  unfolding startsWith_def by (metis append_eq_conv_conj append_take_drop_id)

text \<open>\<open>str_includes\<close> is the substring test.\<close>

lemma str_includes_iff: "str_includes s n \<longleftrightarrow> (\<exists>pre post. s = pre @ n @ post)"
proof (induction s)
  case Nil
  then show ?case by auto
next
  case (Cons c cs)
  show ?case
  proof
    assume "str_includes (c # cs) n"
    then consider "startsWith (c # cs) n" | "str_includes cs n" by auto
    then show "\<exists>pre post. c # cs = pre @ n @ post"
    proof cases
      case 1
      then obtain post where "c # cs = n @ post" using startsWith_iff by blast
      then have "c # cs = [] @ n @ post" by simp
      then show ?thesis by blast
    next
      case 2
      then obtain pre post where "cs = pre @ n @ post" using Cons.IH by blast
      then have "c # cs = (c # pre) @ n @ post" by simp
      then show ?thesis by blast
    qed
  next
    assume "\<exists>pre post. c # cs = pre @ n @ post"
    then obtain pre post where p: "c # cs = pre @ n @ post" by blast
    show "str_includes (c # cs) n"
    proof (cases pre)
      case Nil
      then have "\<exists>post. c # cs = n @ post" using p by auto
      then have "startsWith (c # cs) n" using startsWith_iff by blast
      then show ?thesis by simp
    next
      case (Cons d pre')
      then have "cs = pre' @ n @ post" using p by simp
      then show ?thesis using Cons.IH by auto
    qed
  qed
qed

section \<open>Detecting encryption\<close>

text \<open>
  C8, as the code has it. \<^verbatim>\<open>isPdfEncrypted\<close> answers true exactly when reading the file or
  the strict load of its bytes (default options, so encryption is not ignored) throws an
  \<^verbatim>\<open>Error\<close> whose message contains \<^verbatim>\<open>encrypt\<close>, \<^verbatim>\<open>password\<close> or \<^verbatim>\<open>permission\<close>. Hence a
  load that succeeds gives false, and so does every other failure (a corrupted file, a
  thrown value that is no \<^verbatim>\<open>Error\<close>).
\<close>

theorem isPdfEncrypted_iff:
  "isPdfEncrypted lib pdfFile \<longleftrightarrow>
     (\<exists>message.
        (arrayBuffer pdfFile = Inl (JsError message)
         \<or> (\<exists>arrayBuf. arrayBuffer pdfFile = Inr arrayBuf
               \<and> lib_load lib default_load arrayBuf = Inl (JsError message)))
        \<and> (str_includes message ''encrypt'' \<or> str_includes message ''password''
             \<or> str_includes message ''permission''))"
  by (auto simp: isPdfEncrypted_def mentionsEncryption_def
      split: sum.splits thrown.splits)

theorem isPdfEncrypted_iff_witness:
  "isPdfEncrypted encryptedLib garbageFile \<and> \<not> isPdfEncrypted pickyLib garbageFile
   \<and> \<not> isPdfEncrypted pickyLib bomFile"
  using isPdfEncrypted_iff [of encryptedLib garbageFile]
    isPdfEncrypted_iff [of pickyLib garbageFile] isPdfEncrypted_iff [of pickyLib bomFile]
  by (simp add: encryptedLib_def default_load_def garbageFile_def bomFile_def arrayBuffer_def
      pickyLib_load startsWith_def)

text \<open>
  Against C8 as stated: for a file that cannot be read, with the browser's message about
  permission problems, the answer is true although no strict load fails (none is made,
  and the library at hand loads every buffer).
\<close>

theorem unreadable_file_reported_encrypted:
  "isPdfEncrypted countingLib unreadableFile
   \<and> (\<forall>arrayBuf. \<exists>doc. lib_load countingLib default_load arrayBuf = Inr doc)"
  by (simp add: isPdfEncrypted_def mentionsEncryption_def arrayBuffer_def unreadableFile_def
      countingLib_def startsWith_def)

section \<open>Unlocking\<close>

lemma copyEachPage_pages:
  "copyEachPage lib src is new = Inr d \<Longrightarrow>
     \<exists>ps. doc_pages d = doc_pages new @ ps \<and> length ps = length is
          \<and> (\<forall>k<length is. lib_copyPage lib src (is ! k) = Inr (ps ! k))"
proof (induction "is" arbitrary: new)
  case Nil
  then show ?case by simp
next
  case (Cons i "is")
  from Cons.prems obtain p where p: "lib_copyPage lib src i = Inr p"
    and rest: "copyEachPage lib src is (addPage new p) = Inr d"
    by (auto split: sum.splits)
  from Cons.IH [OF rest] obtain ps where ps: "doc_pages d = doc_pages (addPage new p) @ ps"
    "length ps = length is" "\<forall>k<length is. lib_copyPage lib src (is ! k) = Inr (ps ! k)"
    by blast
  have "doc_pages d = doc_pages new @ (p # ps)" using ps(1) by (simp add: addPage_def)
  moreover have "length (p # ps) = length (i # is)" using ps(2) by simp
  moreover have "\<forall>k<length (i # is). lib_copyPage lib src ((i # is) ! k) = Inr ((p # ps) ! k)"
    using p ps(2,3) by (auto simp: nth_Cons split: nat.splits)
  ultimately show ?case by blast
qed

lemma copyEachPage_succeeds:
  "\<forall>i\<in>set is. \<exists>p. lib_copyPage lib src i = Inr p \<Longrightarrow>
     \<exists>d. copyEachPage lib src is new = Inr d"
  by (induction "is" arbitrary: new) (auto split: sum.splits)

text \<open>The new document of \<open>unlockPdf\<close>: the copies of the source's pages, in order.\<close>

lemma unlockedDocument_pages:
  assumes "arrayBuffer pdfFile = Inr arrayBuf" "lib_load lib permissive_load arrayBuf = Inr src"
    and "unlockedDocument lib pdfFile = Inr newPdfDoc"
  shows "getPageCount newPdfDoc = getPageCount src"
    and "\<forall>i<getPageCount src. lib_copyPage lib src i = Inr (doc_pages newPdfDoc ! i)"
proof -
  from assms have c: "copyEachPage lib src [0..<getPageCount src] create = Inr newPdfDoc"
    by (simp add: unlockedDocument_def)
  from copyEachPage_pages [OF c] obtain ps where ps:
    "doc_pages newPdfDoc = doc_pages create @ ps" "length ps = getPageCount src"
    "\<forall>k<getPageCount src. lib_copyPage lib src ([0..<getPageCount src] ! k) = Inr (ps ! k)"
    by auto
  show "getPageCount newPdfDoc = getPageCount src"
    using ps(1,2) by (simp add: getPageCount_def create_def)
  show "\<forall>i<getPageCount src. lib_copyPage lib src i = Inr (doc_pages newPdfDoc ! i)"
    using ps by (simp add: create_def)
qed

text \<open>
  C9, as the code has it. Let the file be readable and the permissive load of its bytes
  give the source document. If \<^verbatim>\<open>unlockPdf\<close> resolves, its bytes are the serialisation of a
  document whose pages are the copies of the source's pages, one one-index \<^verbatim>\<open>copyPages\<close>
  call per page in source order, and, because \<^verbatim>\<open>save()\<close> is called with its defaults,
  one page of default size when the source has no page: the written document has the
  source's page count if that is positive, and one page if it is zero. With a library
  that reads back as many pages as it wrote, this is the page count of the output. And
  if each of the copies succeeds, \<^verbatim>\<open>unlockPdf\<close> resolves exactly when the serialisation
  does.
\<close>

theorem unlockPdf_page_count:
  assumes "arrayBuffer pdfFile = Inr arrayBuf"
    and "lib_load lib permissive_load arrayBuf = Inr src"
  shows "(unlockPdf lib pdfFile = Inr pdfBytes \<longrightarrow>
            (\<exists>written. lib_serialize lib default_save written = Inr pdfBytes
               \<and> getPageCount written = (if getPageCount src = 0 then 1 else getPageCount src)
               \<and> (\<forall>i<getPageCount src.
                     lib_copyPage lib src i = Inr (doc_pages written ! i))
               \<and> (getPageCount src = 0 \<longrightarrow> doc_pages written = [defaultPage])
               \<and> ((\<forall>d b. lib_serialize lib default_save d = Inr b \<longrightarrow>
                       (\<exists>d'. lib_load lib readOptions b = Inr d'
                          \<and> getPageCount d' = getPageCount d))
                    \<longrightarrow> (\<exists>d'. lib_load lib readOptions pdfBytes = Inr d'
                          \<and> getPageCount d'
                              = (if getPageCount src = 0 then 1 else getPageCount src)))))
       \<and> ((\<forall>i<getPageCount src. \<exists>p. lib_copyPage lib src i = Inr p) \<longrightarrow>
            (\<exists>newPdfDoc. unlockedDocument lib pdfFile = Inr newPdfDoc
               \<and> unlockPdf lib pdfFile =
                  (case lib_serialize lib default_save (preparedForSave default_save newPdfDoc) of
                     Inl e \<Rightarrow> Inl (JsError ''Failed to unlock the PDF document.'')
                   | Inr b \<Rightarrow> Inr b)))"
proof (intro conjI impI)
  assume u: "unlockPdf lib pdfFile = Inr pdfBytes"
  then obtain d where d: "unlockedDocument lib pdfFile = Inr d"
    and s: "save lib default_save d = Inr pdfBytes"
    by (auto simp: unlockPdf_def split: sum.splits)
  let ?w = "preparedForSave default_save d"
  have n: "getPageCount d = getPageCount src"
    and p: "\<forall>i<getPageCount src. lib_copyPage lib src i = Inr (doc_pages d ! i)"
    using unlockedDocument_pages [OF assms d] by simp_all
  have w1: "lib_serialize lib default_save ?w = Inr pdfBytes" using s by (simp add: save_def)
  have w2: "getPageCount ?w = (if getPageCount src = 0 then 1 else getPageCount src)"
    using n by (simp add: preparedForSave_def default_save_def getPageCount_def addPage_def)
  have w3: "\<forall>i<getPageCount src. lib_copyPage lib src i = Inr (doc_pages ?w ! i)"
    using p n by (simp add: preparedForSave_def)
  have w4: "getPageCount src = 0 \<longrightarrow> doc_pages ?w = [defaultPage]"
    using n by (auto simp: preparedForSave_def default_save_def getPageCount_def addPage_def)
  have w5: "(\<forall>d b. lib_serialize lib default_save d = Inr b \<longrightarrow>
               (\<exists>d'. lib_load lib readOptions b = Inr d' \<and> getPageCount d' = getPageCount d))
            \<longrightarrow> (\<exists>d'. lib_load lib readOptions pdfBytes = Inr d'
                  \<and> getPageCount d' = (if getPageCount src = 0 then 1 else getPageCount src))"
    using w1 w2 by metis
  show "\<exists>written. lib_serialize lib default_save written = Inr pdfBytes
               \<and> getPageCount written = (if getPageCount src = 0 then 1 else getPageCount src)
               \<and> (\<forall>i<getPageCount src.
                     lib_copyPage lib src i = Inr (doc_pages written ! i))
               \<and> (getPageCount src = 0 \<longrightarrow> doc_pages written = [defaultPage])
               \<and> ((\<forall>d b. lib_serialize lib default_save d = Inr b \<longrightarrow>
                       (\<exists>d'. lib_load lib readOptions b = Inr d'
                          \<and> getPageCount d' = getPageCount d))
                    \<longrightarrow> (\<exists>d'. lib_load lib readOptions pdfBytes = Inr d'
                          \<and> getPageCount d'
                              = (if getPageCount src = 0 then 1 else getPageCount src)))"
  proof (intro exI conjI)
    show "lib_serialize lib default_save ?w = Inr pdfBytes" by (rule w1)
    show "getPageCount ?w = (if getPageCount src = 0 then 1 else getPageCount src)"
      by (rule w2)
    show "\<forall>i<getPageCount src. lib_copyPage lib src i = Inr (doc_pages ?w ! i)" by (rule w3)
    show "getPageCount src = 0 \<longrightarrow> doc_pages ?w = [defaultPage]" by (rule w4)
    show "(\<forall>d b. lib_serialize lib default_save d = Inr b \<longrightarrow>
               (\<exists>d'. lib_load lib readOptions b = Inr d' \<and> getPageCount d' = getPageCount d))
            \<longrightarrow> (\<exists>d'. lib_load lib readOptions pdfBytes = Inr d'
                  \<and> getPageCount d' = (if getPageCount src = 0 then 1 else getPageCount src))"
      by (rule w5)
  qed
next
  assume "\<forall>i<getPageCount src. \<exists>p. lib_copyPage lib src i = Inr p"
  then have "\<forall>i\<in>set [0..<getPageCount src]. \<exists>p. lib_copyPage lib src i = Inr p" by simp
  from copyEachPage_succeeds [OF this] obtain d where
    "copyEachPage lib src [0..<getPageCount src] create = Inr d" by blast
  then have "unlockedDocument lib pdfFile = Inr d"
    using assms by (simp add: unlockedDocument_def)
  then show "\<exists>newPdfDoc. unlockedDocument lib pdfFile = Inr newPdfDoc
               \<and> unlockPdf lib pdfFile =
                  (case lib_serialize lib default_save (preparedForSave default_save newPdfDoc) of
                     Inl e \<Rightarrow> Inl (JsError ''Failed to unlock the PDF document.'')
                   | Inr b \<Rightarrow> Inr b)"
    by (auto simp: unlockPdf_def save_def split: sum.splits)
qed

text \<open>The sample library reads back as many pages as it wrote.\<close>

lemma countingLib_facts:
  "lib_load countingLib opts b
     = Inr \<lparr>doc_pages = replicate (length b) (blankPage 612 792), doc_rest = 0\<rparr>"
  "lib_serialize countingLib sopts d = Inr (replicate (length (doc_pages d)) 37)"
  "lib_copyPage countingLib d i = Inr (doc_pages d ! i)"
  by (simp_all add: countingLib_def)

lemma countingLib_roundtrip:
  "\<forall>d b. lib_serialize countingLib default_save d = Inr b \<longrightarrow>
     (\<exists>d'. lib_load countingLib default_load b = Inr d' \<and> getPageCount d' = getPageCount d)"
  by (auto simp: countingLib_facts getPageCount_def)

lemma unlockPdf_twoPageFile: "unlockPdf countingLib twoPageFile = Inr [37, 37]"
proof -
  have "unlockedDocument countingLib twoPageFile
          = Inr \<lparr>doc_pages = [blankPage 612 792, blankPage 612 792], doc_rest = 0\<rparr>"
    by (simp add: unlockedDocument_def arrayBuffer_def twoPageFile_def countingLib_facts
        getPageCount_def addPage_def create_def)
  then show ?thesis
    by (simp add: unlockPdf_def save_def preparedForSave_def getPageCount_def
        countingLib_facts)
qed

theorem unlockPdf_page_count_witness:
  "unlockPdf countingLib twoPageFile = Inr [37, 37]
   \<and> (\<exists>d'. lib_load countingLib default_load [37, 37] = Inr d' \<and> getPageCount d' = 2)
   \<and> (\<exists>src. lib_load countingLib permissive_load [37, 37] = Inr src \<and> getPageCount src = 2)"
proof -
  let ?src = "\<lparr>doc_pages = [blankPage 612 792, blankPage 612 792], doc_rest = 0\<rparr>"
  have r: "arrayBuffer twoPageFile = Inr [37, 37]"
    by (simp add: arrayBuffer_def twoPageFile_def)
  have l: "lib_load countingLib permissive_load [37, 37] = Inr ?src"
    by (simp add: countingLib_facts numeral_2_eq_2)
  have n: "getPageCount ?src = 2" by (simp add: getPageCount_def)
  from unlockPdf_page_count [OF r l, of "[37, 37]" default_load]
    unlockPdf_twoPageFile countingLib_roundtrip n
  have "\<exists>d'. lib_load countingLib default_load [37, 37] = Inr d' \<and> getPageCount d' = 2"
    by auto
  then show ?thesis using unlockPdf_twoPageFile l n by blast
qed

text \<open>
  Against C9 as stated: the source without pages. \<^verbatim>\<open>unlockPdf\<close> resolves, and what it
  wrote is a document of one page.
\<close>

theorem unlock_of_empty_source_has_a_page:
  "lib_load countingLib permissive_load [] = Inr \<lparr>doc_pages = [], doc_rest = 0\<rparr>
   \<and> getPageCount \<lparr>doc_pages = [], doc_rest = 0\<rparr> = 0
   \<and> unlockPdf countingLib emptyFile = Inr [37]
   \<and> lib_load countingLib default_load [37]
       = Inr \<lparr>doc_pages = [blankPage 612 792], doc_rest = 0\<rparr>
   \<and> getPageCount \<lparr>doc_pages = [blankPage 612 792], doc_rest = 0\<rparr> = 1"
proof -
  have "unlockedDocument countingLib emptyFile = Inr create"
    by (simp add: unlockedDocument_def arrayBuffer_def emptyFile_def countingLib_facts
        getPageCount_def)
  then have "unlockPdf countingLib emptyFile = Inr [37]"
    by (simp add: unlockPdf_def save_def preparedForSave_def default_save_def getPageCount_def
        create_def addPage_def countingLib_facts)
  then show ?thesis by (simp add: countingLib_facts getPageCount_def)
qed

section \<open>The rectangle drawn for an area\<close>




section \<open>The store holds only areas that are large enough\<close>

lemma removeAt_subset: "set (removeAt index xs) \<subseteq> set xs"
proof -
  have "set (map snd (filter P ys)) \<subseteq> set (map snd ys)" for P and ys :: "(nat \<times> 'a) list"
    by auto
  from this [of _ "enumerate 0 xs"] show ?thesis
    unfolding removeAt_def map_snd_enumerate .
qed

lemma normalizedArea_extent:
  "area_width (normalizedArea area) = \<bar>area_width area\<bar>"
  "area_height (normalizedArea area) = \<bar>area_height area\<bar>"
  "area_x (normalizedArea area) = min (area_x area) (area_x area + area_width area)"
  "area_y (normalizedArea area) = min (area_y area) (area_y area + area_height area)"
  "pageNumber (normalizedArea area) = pageNumber area"
  by (simp_all add: normalizedArea_def min_def)

lemma ui_step_stored:
  assumes "\<forall>a \<in> stored s. largeEnough a"
  shows "\<forall>a \<in> stored (ui_step e s). largeEnough a"
proof (cases e)
  case (MouseDown enableDrawing x y)
  then show ?thesis using assms by (simp add: handleMouseDown_def stored_def)
next
  case (MouseMove x y)
  then show ?thesis
    using assms by (simp add: handleMouseMove_def stored_def split: option.splits prod.splits)
next
  case MouseUp
  show ?thesis
  proof (cases "currentArea s")
    case None
    then show ?thesis using assms MouseUp by (simp add: handleMouseUp_def stored_def)
  next
    case (Some area)
    show ?thesis
    proof (cases "isDrawing s \<and> \<bar>area_width area\<bar> > minSelectionSize
                    \<and> \<bar>area_height area\<bar> > minSelectionSize")
      case True
      then have "largeEnough (normalizedArea area)"
        by (simp add: largeEnough_def normalizedArea_extent)
      moreover have "stored (handleMouseUp s) = insert (normalizedArea area) (set (redactionAreas s))"
        using True Some
        by (auto simp: handleMouseUp_def handleRedactionAreaCreated_def stored_def Let_def)
      ultimately show ?thesis using assms MouseUp by (auto simp: stored_def)
    next
      case False
      then have "stored (handleMouseUp s) = stored s"
        using Some by (auto simp: handleMouseUp_def stored_def Let_def)
      then show ?thesis using assms MouseUp by simp
    qed
  qed
next
  case (RemoveArea index)
  have "stored (onRemoveArea index s) \<subseteq> set (redactionAreas s)"
    using removeAt_subset [of index "redactionAreas s"]
    by (auto simp: onRemoveArea_def stored_def Let_def)
  then show ?thesis using assms RemoveArea by (auto simp: stored_def)
next
  case DocumentChanged
  then show ?thesis using assms by (simp add: documentChanged_def stored_def)
next
  case FileUpload
  then show ?thesis using assms by (simp add: handleFileUpload_def stored_def)
next
  case (SetCurrentPage p)
  then show ?thesis using assms by (simp add: stored_def)
qed

lemma ui_run_snoc: "ui_run (events @ [e]) = ui_step e (ui_run events)"
  by (simp add: ui_run_def)

lemma ui_run_stored: "\<forall>a \<in> stored (ui_run events). largeEnough a"
proof (induction events rule: rev_induct)
  case Nil
  then show ?case by (simp add: ui_run_def initial_ui_def stored_def)
next
  case (snoc e events)
  then show ?case unfolding ui_run_snoc by (rule ui_step_stored)
qed

text \<open>
  C6. After any sequence of pointer events, removals, page changes and document or file
  changes, every area held in the viewer's list, and in the copy \<^verbatim>\<open>page.tsx\<close> holds, has
  width and height above \<open>minSelectionSize\<close>, which is 10, and so non-negative. A finished
  drag is added only when its absolute width and height both exceed the minimum (a drag
  of 5 by 5 leaves the list as it was), and then as the normalized area: absolute width
  and height, and the smaller of the two ends as corner. Adding such an area, removing
  by index and clearing keep the invariant.
\<close>

theorem store_invariant:
  "(\<forall>a \<in> set (redactionAreas (ui_run events)) \<union> set (selections (ui_run events)).
      area_width a > minSelectionSize \<and> area_height a > minSelectionSize
      \<and> 0 \<le> area_width a \<and> 0 \<le> area_height a)
   \<and> minSelectionSize = 10
   \<and> (currentArea s = Some area
        \<and> \<not> (\<bar>area_width area\<bar> > minSelectionSize \<and> \<bar>area_height area\<bar> > minSelectionSize)
       \<longrightarrow> redactionAreas (handleMouseUp s) = redactionAreas s)
   \<and> (currentArea s = Some area \<and> isDrawing s
        \<and> \<bar>area_width area\<bar> > minSelectionSize \<and> \<bar>area_height area\<bar> > minSelectionSize
       \<longrightarrow> redactionAreas (handleMouseUp s) = redactionAreas s @ [normalizedArea area]
           \<and> area_width (normalizedArea area) = \<bar>area_width area\<bar>
           \<and> area_height (normalizedArea area) = \<bar>area_height area\<bar>
           \<and> area_x (normalizedArea area) = min (area_x area) (area_x area + area_width area)
           \<and> area_y (normalizedArea area) = min (area_y area) (area_y area + area_height area))
   \<and> ((\<forall>a \<in> set (redactionAreas s). largeEnough a) \<and> largeEnough new
       \<longrightarrow> (\<forall>a \<in> set (redactionAreas (handleRedactionAreaCreated new s)). largeEnough a)
           \<and> (\<forall>a \<in> set (redactionAreas (onRemoveArea index s)). largeEnough a)
           \<and> (\<forall>a \<in> set (redactionAreas (documentChanged s)). largeEnough a))"
proof (intro conjI impI)
  show "\<forall>a \<in> set (redactionAreas (ui_run events)) \<union> set (selections (ui_run events)).
      area_width a > minSelectionSize \<and> area_height a > minSelectionSize
      \<and> 0 \<le> area_width a \<and> 0 \<le> area_height a"
  proof
    fix a
    assume "a \<in> set (redactionAreas (ui_run events)) \<union> set (selections (ui_run events))"
    then have "largeEnough a" using ui_run_stored [of events] by (simp add: stored_def)
    then show "area_width a > minSelectionSize \<and> area_height a > minSelectionSize
      \<and> 0 \<le> area_width a \<and> 0 \<le> area_height a"
      by (simp add: largeEnough_def minSelectionSize_def)
  qed
  show "minSelectionSize = 10" by (simp add: minSelectionSize_def)
next
  assume "currentArea s = Some area
        \<and> \<not> (\<bar>area_width area\<bar> > minSelectionSize \<and> \<bar>area_height area\<bar> > minSelectionSize)"
  then show "redactionAreas (handleMouseUp s) = redactionAreas s"
    by (auto simp: handleMouseUp_def Let_def)
next
  assume a: "currentArea s = Some area \<and> isDrawing s
        \<and> \<bar>area_width area\<bar> > minSelectionSize \<and> \<bar>area_height area\<bar> > minSelectionSize"
  then show "redactionAreas (handleMouseUp s) = redactionAreas s @ [normalizedArea area]"
    by (simp add: handleMouseUp_def handleRedactionAreaCreated_def Let_def)
  show "area_width (normalizedArea area) = \<bar>area_width area\<bar>"
    "area_height (normalizedArea area) = \<bar>area_height area\<bar>"
    "area_x (normalizedArea area) = min (area_x area) (area_x area + area_width area)"
    "area_y (normalizedArea area) = min (area_y area) (area_y area + area_height area)"
    by (rule normalizedArea_extent)+
next
  assume i: "(\<forall>a \<in> set (redactionAreas s). largeEnough a) \<and> largeEnough new"
  then show "\<forall>a \<in> set (redactionAreas (handleRedactionAreaCreated new s)). largeEnough a"
    by (auto simp: handleRedactionAreaCreated_def Let_def)
  show "\<forall>a \<in> set (redactionAreas (onRemoveArea index s)). largeEnough a"
    using i removeAt_subset [of index "redactionAreas s"]
    by (auto simp: onRemoveArea_def Let_def)
  show "\<forall>a \<in> set (redactionAreas (documentChanged s)). largeEnough a"
    by (simp add: documentChanged_def)
qed

text \<open>A drag from (100, 100) up and left to (40, 30) is stored normalized; a drag of 5 by
  5 is not stored.\<close>

theorem store_invariant_witness:
  "redactionAreas (ui_run [MouseDown True 100 100, MouseMove 40 30, MouseUp])
     = [\<lparr>pageNumber = 1, area_x = 40, area_y = 30, area_width = 60, area_height = 70\<rparr>]
   \<and> (10::real) < 60 \<and> (10::real) < 70
   \<and> redactionAreas (ui_run [MouseDown True 0 0, MouseMove 5 5, MouseUp]) = []
   \<and> redactionAreas (ui_run [MouseDown True 100 100, MouseMove 40 30, MouseUp,
        RemoveArea 0]) = []"
proof -
  have 1: "redactionAreas (ui_run [MouseDown True 100 100, MouseMove 40 30, MouseUp])
     = [\<lparr>pageNumber = 1, area_x = 40, area_y = 30, area_width = 60, area_height = 70\<rparr>]"
    by (simp add: ui_run_def initial_ui_def handleMouseDown_def handleMouseMove_def
        handleMouseUp_def handleRedactionAreaCreated_def normalizedArea_def
        minSelectionSize_def Let_def)
  have 2: "redactionAreas (ui_run [MouseDown True 0 0, MouseMove 5 5, MouseUp]) = []"
    by (simp add: ui_run_def initial_ui_def handleMouseDown_def handleMouseMove_def
        handleMouseUp_def handleRedactionAreaCreated_def normalizedArea_def
        minSelectionSize_def Let_def)
  have 3: "redactionAreas (ui_run [MouseDown True 100 100, MouseMove 40 30, MouseUp,
        RemoveArea 0]) = []"
    by (simp add: ui_run_def initial_ui_def handleMouseDown_def handleMouseMove_def
        handleMouseUp_def handleRedactionAreaCreated_def normalizedArea_def
        minSelectionSize_def onRemoveArea_def removeAt_def Let_def)
  show ?thesis
    using store_invariant [of "[MouseDown True 100 100, MouseMove 40 30, MouseUp]"
        initial_ui "\<lparr>pageNumber = 1, area_x = 0, area_y = 0, area_width = 5, area_height = 5\<rparr>"
        area1 0]
      1 2 3
    by (simp add: minSelectionSize_def)
qed

end
